theory Spec2Isabelle
  imports Main "HOL-Library.Multiset"
begin

section \<open>Library types: ObjectIds and HTTP exceptions\<close>

text \<open>
  A Mongo \<open>Types.ObjectId\<close> is identified with its canonical string \<open>String(id)\<close>: 24
  lower-case hexadecimal characters. \<open>Types.ObjectId.isValid\<close> accepts a string of 24
  hexadecimal characters of either case, and \<open>new Types.ObjectId(s)\<close> lower-cases it.
  (Older versions of the driver also take any 12-character string as 12 raw bytes; the
  model follows the current one.) The services call the constructor only after \<open>isValid\<close>
  has passed.
\<close>

type_synonym objectid = string

definition isHexChar :: "char \<Rightarrow> bool" where
  "isHexChar c = (c \<in> set ''0123456789abcdefABCDEF'')"

definition ObjectId_isValid :: "string \<Rightarrow> bool" where
  "ObjectId_isValid s = (length s = 24 \<and> list_all isHexChar s)"

definition hexLower :: "char \<Rightarrow> char" where
  "hexLower c =
     (if c = CHR ''A'' then CHR ''a'' else if c = CHR ''B'' then CHR ''b''
      else if c = CHR ''C'' then CHR ''c'' else if c = CHR ''D'' then CHR ''d''
      else if c = CHR ''E'' then CHR ''e'' else if c = CHR ''F'' then CHR ''f''
      else c)"

definition newObjectId :: "string \<Rightarrow> objectid" where
  "newObjectId s = map hexLower s"

text \<open>The two NestJS exception classes the services throw, with their message.\<close>

datatype http_exception = BadRequestException string | NotFoundException string

section \<open>Connection requests (connection-request.schema, connection-request.service)\<close>

datatype ConnectionRequestStatus = PENDING | ACCEPTED | REJECTED

fun statusString :: "ConnectionRequestStatus \<Rightarrow> string" where
  "statusString PENDING = ''pending''"
| "statusString ACCEPTED = ''accepted''"
| "statusString REJECTED = ''rejected''"

record ConnectionRequest =
  cr_id :: objectid
  requesterId :: objectid
  recipientId :: objectid
  status :: ConnectionRequestStatus

text \<open>The collection is the list of its documents in insertion order.\<close>

type_synonym request_store = "ConnectionRequest list"

text \<open>
  The query \<open>{$or: [{requesterId: a, recipientId: b}, {requesterId: b, recipientId: a}],
  status: s}\<close> used by \<open>sendRequest\<close> and \<open>areConnected\<close>.
\<close>

definition pairMatch :: "objectid \<Rightarrow> objectid \<Rightarrow> ConnectionRequest \<Rightarrow> bool" where
  "pairMatch a b r =
     ((requesterId r = a \<and> recipientId r = b) \<or> (requesterId r = b \<and> recipientId r = a))"

definition findOnePair ::
  "request_store \<Rightarrow> objectid \<Rightarrow> objectid \<Rightarrow> ConnectionRequestStatus \<Rightarrow> ConnectionRequest option" where
  "findOnePair db a b s = List.find (\<lambda>r. pairMatch a b r \<and> status r = s) db"

definition findRequestById :: "request_store \<Rightarrow> objectid \<Rightarrow> ConnectionRequest option" where
  "findRequestById db i = List.find (\<lambda>r. cr_id r = i) db"

text \<open>
  The unique index \<open>{requesterId: 1, recipientId: 1, status: 1}\<close> with
  \<open>partialFilterExpression: {status: 'pending'}\<close>: an insert is refused when a pending
  document with the same requester and the same recipient is already stored.
\<close>

definition pendingIndexClash :: "request_store \<Rightarrow> ConnectionRequest \<Rightarrow> bool" where
  "pendingIndexClash db d =
     (status d = PENDING \<and>
      list_ex (\<lambda>r. status r = PENDING \<and> requesterId r = requesterId d
                   \<and> recipientId r = recipientId d) db)"

definition createRequest :: "request_store \<Rightarrow> ConnectionRequest \<Rightarrow> string + request_store" where
  "createRequest db d =
     (if pendingIndexClash db d then Inl ''E11000 duplicate key error''
      else Inr (db @ [d]))"

definition saveRequest :: "request_store \<Rightarrow> ConnectionRequest \<Rightarrow> request_store" where
  "saveRequest db d = map (\<lambda>r. if cr_id r = cr_id d then d else r) db"

text \<open>
  \<open>sendRequest\<close> suspends at each \<open>await\<close>. Its body up to the two \<open>findOne\<close> reads is
  \<open>sendRequest_check\<close>; the \<open>create\<close> that follows is \<open>sendRequest_create\<close>, which runs on
  the collection as it is when the insert reaches the database. A call that is not
  interleaved with another runs both on the same collection: \<open>sendRequest\<close>.
  \<open>newId\<close> is the \<open>_id\<close> the driver generates for the new document.
\<close>

definition sendRequest_check ::
  "request_store \<Rightarrow> string \<Rightarrow> string \<Rightarrow> http_exception + (objectid \<times> objectid)" where
  "sendRequest_check db requester recipient =
     (if \<not> ObjectId_isValid requester \<or> \<not> ObjectId_isValid recipient
      then Inl (BadRequestException ''Invalid userId'')
      else if requester = recipient
      then Inl (BadRequestException ''Cannot send request to yourself'')
      else
        let requesterObjectId = newObjectId requester;
            recipientObjectId = newObjectId recipient
        in case findOnePair db requesterObjectId recipientObjectId ACCEPTED of
             Some acceptedRequest \<Rightarrow> Inl (BadRequestException ''Already connected'')
           | None \<Rightarrow>
               (case findOnePair db requesterObjectId recipientObjectId PENDING of
                  Some pendingRequest \<Rightarrow>
                    (if requesterId pendingRequest = requester
                     then Inl (BadRequestException ''Request already sent'')
                     else Inl (BadRequestException ''You have a pending request from this user''))
                | None \<Rightarrow> Inr (requesterObjectId, recipientObjectId)))"

definition sendRequest_create ::
  "request_store \<Rightarrow> objectid \<Rightarrow> objectid \<times> objectid
     \<Rightarrow> (http_exception + (objectid \<times> string)) \<times> request_store" where
  "sendRequest_create db newId p =
     (case createRequest db
             \<lparr>cr_id = newId, requesterId = fst p, recipientId = snd p, status = PENDING\<rparr> of
        Inl msg \<Rightarrow> (Inl (BadRequestException (''Failed to send request: '' @ msg)), db)
      | Inr db' \<Rightarrow> (Inr (newId, ''Request sent''), db'))"

definition sendRequest ::
  "request_store \<Rightarrow> objectid \<Rightarrow> string \<Rightarrow> string
     \<Rightarrow> (http_exception + (objectid \<times> string)) \<times> request_store" where
  "sendRequest db newId requester recipient =
     (case sendRequest_check db requester recipient of
        Inl e \<Rightarrow> (Inl e, db)
      | Inr p \<Rightarrow> sendRequest_create db newId p)"

definition acceptRequest ::
  "request_store \<Rightarrow> string \<Rightarrow> string \<Rightarrow> (http_exception + (objectid \<times> string)) \<times> request_store" where
  "acceptRequest db userId requestId =
     (if \<not> ObjectId_isValid userId \<or> \<not> ObjectId_isValid requestId
      then (Inl (BadRequestException ''Invalid userId or requestId''), db)
      else case findRequestById db (newObjectId requestId) of
             None \<Rightarrow> (Inl (NotFoundException ''Request not found''), db)
           | Some request \<Rightarrow>
               if recipientId request \<noteq> userId
               then (Inl (BadRequestException ''You are not the recipient of this request''), db)
               else if status request \<noteq> PENDING
               then (Inl (BadRequestException
                            (''Request is already '' @ statusString (status request))), db)
               else (Inr (cr_id request, ''Request accepted''),
                     saveRequest db (request\<lparr>status := ACCEPTED\<rparr>)))"

definition rejectRequest ::
  "request_store \<Rightarrow> string \<Rightarrow> string \<Rightarrow> (http_exception + (objectid \<times> string)) \<times> request_store" where
  "rejectRequest db userId requestId =
     (if \<not> ObjectId_isValid userId \<or> \<not> ObjectId_isValid requestId
      then (Inl (BadRequestException ''Invalid userId or requestId''), db)
      else case findRequestById db (newObjectId requestId) of
             None \<Rightarrow> (Inl (NotFoundException ''Request not found''), db)
           | Some request \<Rightarrow>
               if recipientId request \<noteq> userId
               then (Inl (BadRequestException ''You are not the recipient of this request''), db)
               else if status request \<noteq> PENDING
               then (Inl (BadRequestException
                            (''Request is already '' @ statusString (status request))), db)
               else (Inr (cr_id request, ''Request rejected''),
                     saveRequest db (request\<lparr>status := REJECTED\<rparr>)))"

definition areConnected :: "request_store \<Rightarrow> string \<Rightarrow> string \<Rightarrow> bool" where
  "areConnected db userId1 userId2 =
     (if \<not> ObjectId_isValid userId1 \<or> \<not> ObjectId_isValid userId2 then False
      else findOnePair db (newObjectId userId1) (newObjectId userId2) ACCEPTED \<noteq> None)"

section \<open>Messages (message.schema, message.service)\<close>

text \<open>Dates are milliseconds since the epoch.\<close>

type_synonym date = int

record Message =
  msg_id :: objectid
  senderId :: objectid
  receiverId :: objectid
  content :: string
  hasFile :: bool
  fileKey :: "string option"
  fileUrl :: "string option"
  fileName :: "string option"
  fileType :: "string option"
  fileSize :: "int option"
  isFileUploaded :: bool
  isRead :: bool
  readAt :: "date option"
  createdAt :: date

type_synonym message_store = "Message list"

record FileData =
  fd_fileKey :: string
  fd_fileName :: string
  fd_contentType :: string
  fd_size :: int

record SentMessage =
  sm_messageId :: objectid
  sm_senderId :: string
  sm_receiverId :: string
  sm_content :: string
  sm_hasFile :: bool
  sm_fileKey :: "string option"
  sm_fileName :: "string option"
  sm_fileType :: "string option"
  sm_fileSize :: "int option"
  sm_createdAt :: date

text \<open>
  \<open>messageModel.create\<close>: the schema validates the document before the insert. \<open>content\<close>
  is \<open>required\<close>, and the required-validator of a string path refuses the empty string; the
  other required paths are set by \<open>sendMessage\<close> itself. The error text is the one
  Mongoose builds for the failed path.
\<close>

definition createMessage :: "message_store \<Rightarrow> Message \<Rightarrow> string + message_store" where
  "createMessage msgs m =
     (if content m = []
      then Inl ''Message validation failed: content: Path `content` is required.''
      else Inr (msgs @ [m]))"

text \<open>
  \<open>sendMessage\<close>: \<open>newId\<close> and \<open>now\<close> are the \<open>_id\<close> and the \<open>createdAt\<close> timestamp the
  database layer gives the new document. An error of \<open>create\<close> is caught and thrown again
  as a \<open>BadRequestException\<close>.
\<close>

definition sendMessage ::
  "request_store \<Rightarrow> message_store \<Rightarrow> objectid \<Rightarrow> date \<Rightarrow> string \<Rightarrow> string \<Rightarrow> string
     \<Rightarrow> FileData option \<Rightarrow> (http_exception + SentMessage) \<times> message_store" where
  "sendMessage crs msgs newId now sender receiver text fileData =
     (if \<not> ObjectId_isValid sender \<or> \<not> ObjectId_isValid receiver
      then (Inl (BadRequestException ''Invalid userId''), msgs)
      else if sender = receiver
      then (Inl (BadRequestException ''Cannot send message to yourself''), msgs)
      else if \<not> areConnected crs sender receiver
      then (Inl (BadRequestException ''Users must be connected to send messages''), msgs)
      else
        let message =
              \<lparr>msg_id = newId,
               senderId = newObjectId sender,
               receiverId = newObjectId receiver,
               content = text,
               hasFile = (fileData \<noteq> None),
               fileKey = map_option fd_fileKey fileData,
               fileUrl = None,
               fileName = map_option fd_fileName fileData,
               fileType = map_option fd_contentType fileData,
               fileSize = map_option fd_size fileData,
               isFileUploaded = False,
               isRead = False,
               readAt = None,
               createdAt = now\<rparr>
        in case createMessage msgs message of
             Inl msg \<Rightarrow>
               (Inl (BadRequestException (''Failed to send message: '' @ msg)), msgs)
           | Inr msgs' \<Rightarrow>
               (Inr \<lparr>sm_messageId = msg_id message,
                     sm_senderId = sender,
                     sm_receiverId = receiver,
                     sm_content = text,
                     sm_hasFile = (fileData \<noteq> None),
                     sm_fileKey = map_option fd_fileKey fileData,
                     sm_fileName = map_option fd_fileName fileData,
                     sm_fileType = map_option fd_contentType fileData,
                     sm_fileSize = map_option fd_size fileData,
                     sm_createdAt = createdAt message\<rparr>,
                msgs'))"

datatype direction = Before | After

record MessageView =
  mv_id :: objectid
  mv_senderId :: string
  mv_receiverId :: string
  mv_content :: string
  mv_hasFile :: bool
  mv_fileKey :: "string option"
  mv_fileUrl :: "string option"
  mv_fileName :: "string option"
  mv_fileType :: "string option"
  mv_fileSize :: "int option"
  mv_isFileUploaded :: bool
  mv_isRead :: bool
  mv_readAt :: "date option"
  mv_createdAt :: date

record MessagesPage =
  messages :: "MessageView list"
  nextCursor :: "objectid option"
  hasMore :: bool
  page_direction :: direction

text \<open>
  The base query of \<open>getMessages\<close>:
  \<open>{$or: [{senderId: u, receiverId: o}, {senderId: o, receiverId: u}]}\<close>.
\<close>

definition baseQuery :: "objectid \<Rightarrow> objectid \<Rightarrow> Message \<Rightarrow> bool" where
  "baseQuery u other m =
     ((senderId m = u \<and> receiverId m = other) \<or> (senderId m = other \<and> receiverId m = u))"

definition findMessageById :: "message_store \<Rightarrow> objectid \<Rightarrow> Message option" where
  "findMessageById msgs i = List.find (\<lambda>m. msg_id m = i) msgs"

text \<open>
  \<open>.sort({createdAt: -1})\<close> and \<open>.sort({createdAt: 1})\<close>. The database leaves the order of
  documents with equal keys open; the model keeps them in collection order.
\<close>

definition sortMessages :: "direction \<Rightarrow> Message list \<Rightarrow> Message list" where
  "sortMessages d ms =
     (case d of Before \<Rightarrow> sort_key (\<lambda>m. - createdAt m) ms
              | After \<Rightarrow> sort_key createdAt ms)"

text \<open>
  The cursor part of the query: no condition without a cursor (an empty string is falsy),
  else \<open>createdAt < t\<close> or \<open>createdAt > t\<close> for the cursor message's timestamp \<open>t\<close>.
\<close>

definition cursorCondition ::
  "message_store \<Rightarrow> string option \<Rightarrow> direction \<Rightarrow> http_exception + (Message \<Rightarrow> bool)" where
  "cursorCondition msgs cursor d =
     (case cursor of
        None \<Rightarrow> Inr (\<lambda>m. True)
      | Some c \<Rightarrow>
          if c = [] then Inr (\<lambda>m. True)
          else if \<not> ObjectId_isValid c then Inl (BadRequestException ''Invalid cursor'')
          else (case findMessageById msgs (newObjectId c) of
                  None \<Rightarrow> Inl (BadRequestException ''Cursor message not found'')
                | Some cursorMessage \<Rightarrow>
                    (case d of
                       Before \<Rightarrow> Inr (\<lambda>m. createdAt m < createdAt cursorMessage)
                     | After \<Rightarrow> Inr (\<lambda>m. createdAt m > createdAt cursorMessage))))"

text \<open>\<open>updateMany({_id: {$in: ids}}, {isRead: true, readAt: now})\<close>.\<close>

definition markRead :: "message_store \<Rightarrow> objectid list \<Rightarrow> date \<Rightarrow> message_store" where
  "markRead msgs ids now =
     map (\<lambda>m. if msg_id m \<in> set ids then m\<lparr>isRead := True, readAt := Some now\<rparr> else m) msgs"

definition formatMessage :: "string \<Rightarrow> Message \<Rightarrow> MessageView" where
  "formatMessage userId msg =
     \<lparr>mv_id = msg_id msg,
      mv_senderId = senderId msg,
      mv_receiverId = receiverId msg,
      mv_content = content msg,
      mv_hasFile = hasFile msg,
      mv_fileKey = fileKey msg,
      mv_fileUrl = fileUrl msg,
      mv_fileName = fileName msg,
      mv_fileType = fileType msg,
      mv_fileSize = fileSize msg,
      mv_isFileUploaded = isFileUploaded msg,
      mv_isRead = (if receiverId msg = userId then isRead msg else True),
      mv_readAt = readAt msg,
      mv_createdAt = createdAt msg\<rparr>"

text \<open>
  The fetch of \<open>getMessages\<close>: \<open>find(query).sort(...).limit(limit + 1)\<close>, the \<open>hasMore\<close>
  test, the cut to \<open>limit\<close> documents and the reversal for direction \<open>before\<close>. It returns
  \<open>sortedMessages\<close> and \<open>hasMore\<close>.
\<close>

definition fetchPage ::
  "message_store \<Rightarrow> objectid \<Rightarrow> objectid \<Rightarrow> (Message \<Rightarrow> bool) \<Rightarrow> int \<Rightarrow> direction
     \<Rightarrow> Message list \<times> bool" where
  "fetchPage msgs u other cond limit d =
     (let fetched =
            take (nat (limit + 1))
              (sortMessages d (filter (\<lambda>m. baseQuery u other m \<and> cond m) msgs));
          more = (int (length fetched) > limit);
          messagesToReturn = (if more then take (nat limit) fetched else fetched);
          sortedMessages = (if d = Before then rev messagesToReturn else messagesToReturn)
      in (sortedMessages, more))"

text \<open>
  \<open>getMessages\<close>. \<open>now\<close> is the value of \<open>new Date()\<close> in the read-marking update.
\<close>

definition getMessages ::
  "request_store \<Rightarrow> message_store \<Rightarrow> date \<Rightarrow> string \<Rightarrow> string \<Rightarrow> string option \<Rightarrow> int
     \<Rightarrow> direction \<Rightarrow> (http_exception + MessagesPage) \<times> message_store" where
  "getMessages crs msgs now userId otherUserId cursor limit d =
     (if \<not> ObjectId_isValid userId \<or> \<not> ObjectId_isValid otherUserId
      then (Inl (BadRequestException ''Invalid userId''), msgs)
      else if limit < 1 \<or> limit > 100
      then (Inl (BadRequestException ''Limit must be between 1 and 100''), msgs)
      else if \<not> areConnected crs userId otherUserId
      then (Inl (BadRequestException ''Users must be connected to view messages''), msgs)
      else
        case cursorCondition msgs cursor d of
          Inl e \<Rightarrow> (Inl e, msgs)
        | Inr cond \<Rightarrow>
            let page = fetchPage msgs (newObjectId userId) (newObjectId otherUserId) cond limit d;
                sortedMessages = fst page;
                more = snd page;
                unreadMessageIds =
                  map msg_id
                    (filter (\<lambda>msg. receiverId msg = userId \<and> \<not> isRead msg) sortedMessages);
                msgs' = (if length unreadMessageIds > 0 then markRead msgs unreadMessageIds now
                         else msgs);
                result = map (formatMessage userId) sortedMessages;
                next = (if length result > 0
                        then Some (if d = Before then mv_id (hd result) else mv_id (last result))
                        else None)
            in (Inr \<lparr>messages = result, nextCursor = next, hasMore = more,
                     page_direction = d\<rparr>, msgs'))"

section \<open>Eligibility engine and trail connections (trail-connection.service)\<close>

record AlbumFavorite =
  fav_userId :: objectid
  fav_albumId :: objectid

record Album =
  album_id :: objectid
  album_title :: string
  album_coverImage :: "string option"
  album_userId :: objectid
  album_isDeleted :: bool

record Media =
  media_id :: objectid
  media_albumId :: objectid
  media_isDeleted :: bool

text \<open>
  The \<open>MediaReflection\<close> schema, the one the eligibility check queries. It has no
  anonymity field.
\<close>

record MediaReflection =
  mr_mediaId :: objectid
  mr_userId :: objectid
  mr_reflectionTypeId :: objectid
  mr_reflectionLabel :: string
  mr_reflectionEmoji :: "string option"

text \<open>
  The \<open>Reflection\<close> schema, written by \<open>ReflectionService.addReflection\<close>, is the one with
  the \<open>isAnonymous\<close> flag.
\<close>

datatype ReflectionReason = COMPOSITION | MOMENT | EMOTION | STORY

record Reflection =
  refl_mediaId :: objectid
  refl_userId :: objectid
  refl_reason :: ReflectionReason
  refl_note :: "string option"
  refl_isAnonymous :: bool

text \<open>The collections of the database that hold favorites, albums, media and reflections.\<close>

record Collections =
  favorites :: "AlbumFavorite list"
  albums :: "Album list"
  media :: "Media list"
  mediaReflections :: "MediaReflection list"
  reflections :: "Reflection list"

record AlbumSummary =
  as_id :: objectid
  as_title :: string
  as_coverImage :: "string option"

record Eligibility =
  eligible :: bool
  mutualAlbums :: "AlbumSummary list"
  reflectionCount :: nat
  reasons :: "string list"

definition albumSummary :: "Album \<Rightarrow> AlbumSummary" where
  "albumSummary a = \<lparr>as_id = album_id a, as_title = album_title a,
                      as_coverImage = album_coverImage a\<rparr>"

definition getMediaReflectionsByUser ::
  "Collections \<Rightarrow> string \<Rightarrow> string \<Rightarrow> MediaReflection list" where
  "getMediaReflectionsByUser c userId targetUserId =
     (if \<not> ObjectId_isValid userId \<or> \<not> ObjectId_isValid targetUserId then []
      else
        let userIdObjectId = newObjectId userId;
            targetUserIdObjectId = newObjectId targetUserId;
            targetAlbums = filter (\<lambda>a. album_userId a = targetUserIdObjectId) (albums c);
            targetAlbumIds = map album_id targetAlbums
        in if length targetAlbumIds = 0 then []
           else
             let targetMedia =
                   filter (\<lambda>m. media_albumId m \<in> set targetAlbumIds \<and> \<not> media_isDeleted m)
                     (media c);
                 targetMediaIds = map media_id targetMedia
             in if length targetMediaIds = 0 then []
                else filter (\<lambda>r. mr_userId r = userIdObjectId \<and> mr_mediaId r \<in> set targetMediaIds)
                       (mediaReflections c))"

definition checkConnectionEligibility ::
  "Collections \<Rightarrow> string \<Rightarrow> string \<Rightarrow> http_exception + Eligibility" where
  "checkConnectionEligibility c userId1 userId2 =
     (if \<not> ObjectId_isValid userId1 \<or> \<not> ObjectId_isValid userId2
      then Inl (BadRequestException ''Invalid userId'')
      else if userId1 = userId2
      then Inr \<lparr>eligible = False, mutualAlbums = [], reflectionCount = 0,
                reasons = [''Cannot connect with yourself'']\<rparr>
      else
        let userId1ObjectId = newObjectId userId1;
            userId2ObjectId = newObjectId userId2;
            user1Favorites = filter (\<lambda>f. fav_userId f = userId1ObjectId) (favorites c);
            user1FavoriteAlbumIds = map fav_albumId user1Favorites
        in if length user1FavoriteAlbumIds = 0
           then Inr \<lparr>eligible = False, mutualAlbums = [], reflectionCount = 0,
                     reasons = [''No mutual album favorites'']\<rparr>
           else
             let user2Favorites =
                   filter (\<lambda>f. fav_userId f = userId2ObjectId
                                \<and> fav_albumId f \<in> set user1FavoriteAlbumIds) (favorites c);
                 mutualFavoriteAlbumIds = map fav_albumId user2Favorites
             in if length mutualFavoriteAlbumIds = 0
                then Inr \<lparr>eligible = False, mutualAlbums = [], reflectionCount = 0,
                          reasons = [''No mutual album favorites'']\<rparr>
                else
                  let mutual =
                        filter (\<lambda>a. album_id a \<in> set mutualFavoriteAlbumIds \<and> \<not> album_isDeleted a)
                          (albums c);
                      user1OwnedAlbums = filter (\<lambda>a. album_userId a = userId1) mutual;
                      user2OwnedAlbums = filter (\<lambda>a. album_userId a = userId2) mutual
                  in if length user1OwnedAlbums = 0 \<or> length user2OwnedAlbums = 0
                     then Inr \<lparr>eligible = False, mutualAlbums = map albumSummary mutual,
                               reflectionCount = 0,
                               reasons = [''No mutual album favorites (both directions required)'']\<rparr>
                     else
                       let user1ReflectionsOnUser2 = getMediaReflectionsByUser c userId1 userId2;
                           user2ReflectionsOnUser1 = getMediaReflectionsByUser c userId2 userId1;
                           totalBidirectionalReflections =
                             length user1ReflectionsOnUser2 + length user2ReflectionsOnUser1
                       in if length user1ReflectionsOnUser2 = 0 \<or> length user2ReflectionsOnUser1 = 0
                          then Inr \<lparr>eligible = False, mutualAlbums = map albumSummary mutual,
                                    reflectionCount = totalBidirectionalReflections,
                                    reasons = [''No bidirectional reflections found (both users must reflect on each other's media)'']\<rparr>
                          else Inr \<lparr>eligible = True, mutualAlbums = map albumSummary mutual,
                                    reflectionCount = totalBidirectionalReflections,
                                    reasons = []\<rparr>)"

text \<open>JavaScript's \<open><\<close> on strings: lexicographic by character code.\<close>

fun str_less :: "string \<Rightarrow> string \<Rightarrow> bool" where
  "str_less [] [] = False"
| "str_less [] (y # ys) = True"
| "str_less (x # xs) [] = False"
| "str_less (x # xs) (y # ys) =
     ((of_char x :: nat) < of_char y \<or> (x = y \<and> str_less xs ys))"

definition normalizeUserIds :: "string \<Rightarrow> string \<Rightarrow> objectid \<times> objectid" where
  "normalizeUserIds userId1 userId2 =
     (let id1 = newObjectId userId1; id2 = newObjectId userId2
      in if str_less id1 id2 then (id1, id2) else (id2, id1))"

record TrailConnection =
  tc_id :: objectid
  userA :: objectid
  userB :: objectid
  mutualAlbumIds :: "objectid list"
  tc_reflectionCount :: nat
  isActive :: bool

type_synonym connection_store = "TrailConnection list"

text \<open>The schema's pre-save hook: swap when \<open>String(userA) > String(userB)\<close>.\<close>

definition preSave :: "TrailConnection \<Rightarrow> TrailConnection" where
  "preSave d = (if str_less (userB d) (userA d) then d\<lparr>userA := userB d, userB := userA d\<rparr>
                else d)"

text \<open>\<open>create\<close>: the pre-save hook, then the insert under the unique index on (userA, userB).\<close>

definition createTrailConnection ::
  "connection_store \<Rightarrow> TrailConnection \<Rightarrow> string + connection_store" where
  "createTrailConnection db d =
     (let d' = preSave d
      in if list_ex (\<lambda>x. userA x = userA d' \<and> userB x = userB d') db
         then Inl ''E11000 duplicate key error''
         else Inr (db @ [d']))"

definition findOneConnection ::
  "connection_store \<Rightarrow> objectid \<Rightarrow> objectid \<Rightarrow> TrailConnection option" where
  "findOneConnection db a b = List.find (\<lambda>x. userA x = a \<and> userB x = b) db"

definition findOneActiveConnection ::
  "connection_store \<Rightarrow> objectid \<Rightarrow> objectid \<Rightarrow> TrailConnection option" where
  "findOneActiveConnection db a b = List.find (\<lambda>x. userA x = a \<and> userB x = b \<and> isActive x) db"

text \<open>\<open>updateOne({_id: i}, upd)\<close>: the first document with that id is updated.\<close>

fun updateOneById ::
  "connection_store \<Rightarrow> objectid \<Rightarrow> (TrailConnection \<Rightarrow> TrailConnection) \<Rightarrow> connection_store" where
  "updateOneById [] i upd = []"
| "updateOneById (x # xs) i upd =
     (if tc_id x = i then upd x # xs else x # updateOneById xs i upd)"

text \<open>\<open>Array.prototype.join\<close>.\<close>

fun joinWith :: "string \<Rightarrow> string list \<Rightarrow> string" where
  "joinWith sep [] = []"
| "joinWith sep [x] = x"
| "joinWith sep (x # y # ys) = x @ sep @ joinWith sep (y # ys)"

record ConnectResult =
  connected :: bool
  cr_message :: string
  connectionId :: "objectid option"

definition createConnection ::
  "Collections \<Rightarrow> connection_store \<Rightarrow> objectid \<Rightarrow> string \<Rightarrow> string
     \<Rightarrow> (http_exception + ConnectResult) \<times> connection_store" where
  "createConnection c db newId userId1 userId2 =
     (if \<not> ObjectId_isValid userId1 \<or> \<not> ObjectId_isValid userId2
      then (Inl (BadRequestException ''Invalid userId''), db)
      else if userId1 = userId2
      then (Inl (BadRequestException ''Cannot connect with yourself''), db)
      else
        case checkConnectionEligibility c userId1 userId2 of
          Inl e \<Rightarrow> (Inl e, db)
        | Inr eligibility \<Rightarrow>
            if \<not> eligible eligibility
            then (Inl (BadRequestException
                         (''Connection not eligible: ''
                            @ joinWith '', '' (reasons eligibility))), db)
            else
              let n = normalizeUserIds userId1 userId2
              in (case findOneConnection db (fst n) (snd n) of
                   Some existing \<Rightarrow>
                     if isActive existing
                     then (Inr \<lparr>connected = True, cr_message = ''Already connected'',
                                connectionId = None\<rparr>, db)
                     else (Inr \<lparr>connected = True, cr_message = ''Connection reactivated'',
                                connectionId = None\<rparr>,
                           updateOneById db (tc_id existing)
                             (\<lambda>x. x\<lparr>isActive := True,
                                     mutualAlbumIds := map as_id (mutualAlbums eligibility),
                                     tc_reflectionCount := reflectionCount eligibility\<rparr>))
                 | None \<Rightarrow>
                     (case createTrailConnection db
                             \<lparr>tc_id = newId, userA = fst n, userB = snd n,
                              mutualAlbumIds = map as_id (mutualAlbums eligibility),
                              tc_reflectionCount = reflectionCount eligibility,
                              isActive = True\<rparr> of
                        Inl msg \<Rightarrow>
                          (Inl (BadRequestException (''Failed to create connection: '' @ msg)), db)
                      | Inr db' \<Rightarrow>
                          (Inr \<lparr>connected = True, cr_message = ''Connection created'',
                                connectionId = Some newId\<rparr>, db'))))"

record UpdateResult =
  updated :: bool
  ur_message :: "string option"
  ur_error :: "string option"

text \<open>
  \<open>updateConnectionEligibility\<close> (the periodic re-evaluation). It has no \<open>isValid\<close> guard:
  on a malformed id the \<open>ObjectId\<close> constructor throws, and the \<open>catch\<close> turns every
  exception into \<open>{updated: false, error}\<close>.
\<close>

definition updateConnectionEligibility ::
  "Collections \<Rightarrow> connection_store \<Rightarrow> string \<Rightarrow> string \<Rightarrow> UpdateResult \<times> connection_store" where
  "updateConnectionEligibility c db userId1 userId2 =
     (if \<not> ObjectId_isValid userId1 \<or> \<not> ObjectId_isValid userId2
      then (\<lparr>updated = False, ur_message = None,
              ur_error = Some ''input must be a 24 character hex string, 12 byte Uint8Array, or an integer''\<rparr>, db)
      else
        let n = normalizeUserIds userId1 userId2
        in case findOneActiveConnection db (fst n) (snd n) of
             None \<Rightarrow> (\<lparr>updated = False, ur_message = Some ''No active connection found'',
                        ur_error = None\<rparr>, db)
           | Some connection \<Rightarrow>
               (case checkConnectionEligibility c userId1 userId2 of
                  Inl e \<Rightarrow> (\<lparr>updated = False, ur_message = None,
                              ur_error = Some (case e of BadRequestException m \<Rightarrow> m
                                                       | NotFoundException m \<Rightarrow> m)\<rparr>, db)
                | Inr eligibility \<Rightarrow>
                    let db1 = updateOneById db (tc_id connection)
                                (\<lambda>x. x\<lparr>mutualAlbumIds := map as_id (mutualAlbums eligibility),
                                        tc_reflectionCount := reflectionCount eligibility\<rparr>)
                    in if \<not> eligible eligibility
                       then (\<lparr>updated = True,
                               ur_message = Some ''Connection deactivated (no longer eligible)'',
                               ur_error = None\<rparr>,
                             updateOneById db1 (tc_id connection) (\<lambda>x. x\<lparr>isActive := False\<rparr>))
                       else (\<lparr>updated = True, ur_message = Some ''Connection updated'',
                               ur_error = None\<rparr>, db1)))"

section \<open>Queue consumers (file-upload.consumer, notification.consumer)\<close>

record MessageProperties =
  headers :: "(string \<times> nat) list option"
  persistent :: bool

record ConsumeMessage =
  payload :: string
  properties :: MessageProperties

datatype consumer = FileUploadConsumer | NotificationConsumer

fun queue :: "consumer \<Rightarrow> string" where
  "queue FileUploadConsumer = ''chat.file.upload''"
| "queue NotificationConsumer = ''chat.notification.send''"

fun deadLetterQueue :: "consumer \<Rightarrow> string" where
  "deadLetterQueue FileUploadConsumer = ''chat.file.upload.dlq''"
| "deadLetterQueue NotificationConsumer = ''chat.notification.send.dlq''"

definition maxRetries :: nat where
  "maxRetries = 3"

text \<open>
  The broker as the consumers see it: the queues by name, and the republishes that
  \<open>setTimeout\<close> has scheduled (delay in milliseconds, queue, message). \<open>processed\<close> is a
  log of the deliveries handed to \<open>processMessage\<close>; it records the attempts and is not
  read by the handler.
\<close>

record Broker =
  queues :: "string \<Rightarrow> ConsumeMessage list"
  timers :: "(nat \<times> string \<times> ConsumeMessage) list"
  processed :: "(string \<times> ConsumeMessage) list"

definition sendToQueue :: "string \<Rightarrow> ConsumeMessage \<Rightarrow> Broker \<Rightarrow> Broker" where
  "sendToQueue q m b = b\<lparr>queues := (queues b)(q := queues b q @ [m])\<rparr>"

text \<open>
  \<open>publishFileUpload\<close> and \<open>publishNotification\<close> of the dispatcher: the serialised task
  goes to the consumer's queue with \<open>{persistent: true}\<close> and no headers.
\<close>

definition publishTask :: "consumer \<Rightarrow> string \<Rightarrow> Broker \<Rightarrow> Broker" where
  "publishTask k body b =
     sendToQueue (queue k) \<lparr>payload = body, properties = \<lparr>headers = None, persistent = True\<rparr>\<rparr> b"

definition emptyBroker :: Broker where
  "emptyBroker = \<lparr>queues = (\<lambda>q. []), timers = [], processed = []\<rparr>"

text \<open>\<open>msg.properties.headers?.['x-retry-count'] || 0\<close>\<close>

definition retryCountOf :: "ConsumeMessage \<Rightarrow> nat" where
  "retryCountOf msg =
     (case headers (properties msg) of
        None \<Rightarrow> 0
      | Some hs \<Rightarrow> (case map_of hs ''x-retry-count'' of None \<Rightarrow> 0 | Some n \<Rightarrow> n))"

text \<open>\<open>{...msg.properties.headers, 'x-retry-count': n}\<close>\<close>

definition withRetryCount :: "(string \<times> nat) list option \<Rightarrow> nat \<Rightarrow> (string \<times> nat) list" where
  "withRetryCount hs n =
     filter (\<lambda>kv. fst kv \<noteq> ''x-retry-count'') (case hs of None \<Rightarrow> [] | Some l \<Rightarrow> l)
       @ [(''x-retry-count'', n)]"

text \<open>
  The callback given to \<open>channel.consume\<close>, for one delivered message. \<open>ok\<close> tells whether
  \<open>processMessage\<close> returned (\<open>True\<close>) or threw. Every path acknowledges the delivery.
\<close>

definition onMessage :: "consumer \<Rightarrow> bool \<Rightarrow> ConsumeMessage \<Rightarrow> Broker \<Rightarrow> Broker" where
  "onMessage k ok msg b =
     (let b1 = b\<lparr>processed := processed b @ [(queue k, msg)]\<rparr>
      in if ok then b1
         else
           let retryCount = retryCountOf msg
           in if retryCount < maxRetries
              then
                let retryDelay = 2 ^ retryCount * 1000
                in b1\<lparr>timers := timers b1 @
                        [(retryDelay, queue k,
                          msg\<lparr>properties := (properties msg)
                                 \<lparr>headers := Some (withRetryCount (headers (properties msg))
                                                     (retryCount + 1))\<rparr>\<rparr>)]\<rparr>
              else
                sendToQueue (deadLetterQueue k)
                  \<lparr>payload = payload msg, properties = \<lparr>headers = None, persistent = True\<rparr>\<rparr> b1)"

text \<open>The broker delivers the head of the consumer's queue (prefetch 1).\<close>

definition consumeNext :: "consumer \<Rightarrow> bool \<Rightarrow> Broker \<Rightarrow> Broker" where
  "consumeNext k ok b =
     (case queues b (queue k) of
        [] \<Rightarrow> b
      | m # rest \<Rightarrow> onMessage k ok m (b\<lparr>queues := (queues b)(queue k := rest)\<rparr>))"

text \<open>The scheduled timers fire: each runs \<open>channel.publish('', queue, content, props)\<close>.\<close>

definition fireTimers :: "Broker \<Rightarrow> Broker" where
  "fireTimers b =
     foldl (\<lambda>b' t. sendToQueue (fst (snd t)) (snd (snd t)) b') (b\<lparr>timers := []\<rparr>) (timers b)"

text \<open>
  A run of one consumer: for each outcome of \<open>processMessage\<close> in turn, the next delivery
  is handled and the timers it scheduled fire before the following delivery.
\<close>

fun runConsumer :: "consumer \<Rightarrow> bool list \<Rightarrow> Broker \<Rightarrow> Broker" where
  "runConsumer k [] b = b"
| "runConsumer k (ok # oks) b = runConsumer k oks (fireTimers (consumeNext k ok b))"

section \<open>A client that follows the cursor\<close>

text \<open>
  The client of the pagination property: it calls \<open>getMessages\<close> with no cursor and
  direction \<open>before\<close>, then again with each \<open>nextCursor\<close> it is given, until a page comes
  back with no cursor. It collects the pages in the order received. \<open>fuel\<close> bounds the
  number of calls; \<open>None\<close> means the bound was reached before the last page.
\<close>

fun followCursor ::
  "nat \<Rightarrow> request_store \<Rightarrow> message_store \<Rightarrow> date \<Rightarrow> string \<Rightarrow> string \<Rightarrow> string option \<Rightarrow> int
     \<Rightarrow> ((http_exception + MessageView list list) \<times> message_store) option" where
  "followCursor 0 crs msgs now userId otherUserId cursor limit = None"
| "followCursor (Suc fuel) crs msgs now userId otherUserId cursor limit =
     (case getMessages crs msgs now userId otherUserId cursor limit Before of
        (Inl e, msgs') \<Rightarrow> Some (Inl e, msgs')
      | (Inr page, msgs') \<Rightarrow>
          (case nextCursor page of
             None \<Rightarrow> Some (Inr [messages page], msgs')
           | Some c \<Rightarrow>
               (case followCursor fuel crs msgs' now userId otherUserId (Some c) limit of
                  None \<Rightarrow> None
                | Some (Inl e, msgs'') \<Rightarrow> Some (Inl e, msgs'')
                | Some (Inr pages, msgs'') \<Rightarrow> Some (Inr (messages page # pages), msgs''))))"

section \<open>Auxiliary notions for the statements\<close>

text \<open>
  The media the specification draws the reflection set from: non-deleted media belonging
  to non-deleted albums owned by \<open>b\<close>.
\<close>

definition specMedia :: "Collections \<Rightarrow> objectid \<Rightarrow> objectid \<Rightarrow> bool" where
  "specMedia c b mid =
     list_ex (\<lambda>m. media_id m = mid \<and> \<not> media_isDeleted m
                  \<and> list_ex (\<lambda>al. album_id al = media_albumId m
                                  \<and> album_userId al = b
                                  \<and> \<not> album_isDeleted al) (albums c))
       (media c)"

text \<open>
  The reflection set as the specification words it, for comparison with
  \<open>getMediaReflectionsByUser\<close>: the reflections authored by \<open>a\<close> on non-deleted media
  belonging to non-deleted albums owned by \<open>b\<close>, read on the collection the code queries.
\<close>

definition specReflections :: "Collections \<Rightarrow> objectid \<Rightarrow> objectid \<Rightarrow> MediaReflection list" where
  "specReflections c a b =
     filter (\<lambda>r. mr_userId r = a \<and> specMedia c b (mr_mediaId r)) (mediaReflections c)"

text \<open>
  The anonymous reflections authored by \<open>a\<close> on the same media of \<open>b\<close>: the \<open>Reflection\<close>
  records with \<open>isAnonymous\<close> set.
\<close>

definition anonymousReflections :: "Collections \<Rightarrow> objectid \<Rightarrow> objectid \<Rightarrow> Reflection list" where
  "anonymousReflections c a b =
     filter (\<lambda>x. refl_userId x = a \<and> refl_isAnonymous x \<and> specMedia c b (refl_mediaId x))
       (reflections c)"

text \<open>The album ids a user has favorited, as a set.\<close>

definition favoriteAlbumIds :: "Collections \<Rightarrow> objectid \<Rightarrow> objectid set" where
  "favoriteAlbumIds c u = fav_albumId ` {f \<in> set (favorites c). fav_userId f = u}"

text \<open>
  What the symmetry property compares: the \<open>eligible\<close> flag, the \<open>reflectionCount\<close> and
  the \<open>mutualAlbums\<close> up to order.
\<close>

definition verdict :: "Eligibility \<Rightarrow> bool \<times> nat \<times> AlbumSummary multiset" where
  "verdict e = (eligible e, reflectionCount e, mset (mutualAlbums e))"

text \<open>
  The state of the trail-connection collection that the claims are about: every document
  has \<open>userA < userB\<close>, no two documents have the same (userA, userB), and \<open>_id\<close>s are
  unique.
\<close>

definition normalizedStore :: "connection_store \<Rightarrow> bool" where
  "normalizedStore db =
     (list_all (\<lambda>x. str_less (userA x) (userB x)) db
      \<and> distinct (map (\<lambda>x. (userA x, userB x)) db)
      \<and> distinct (map tc_id db))"

text \<open>The documents of an unordered pair of users.\<close>

definition pairRows :: "connection_store \<Rightarrow> objectid \<Rightarrow> objectid \<Rightarrow> TrailConnection list" where
  "pairRows db p q =
     filter (\<lambda>x. (userA x = p \<and> userB x = q) \<or> (userA x = q \<and> userB x = p)) db"

text \<open>
  The messages of a pair, newest first, as the \<open>before\<close> query of \<open>getMessages\<close> sorts
  them.
\<close>

definition pairDesc :: "objectid \<Rightarrow> objectid \<Rightarrow> message_store \<Rightarrow> Message list" where
  "pairDesc u other msgs = sort_key (\<lambda>m. - createdAt m) (filter (baseQuery u other) msgs)"

text \<open>
  The message collections on which following the cursor is complete: \<open>_id\<close>s are unique
  canonical ObjectIds, and no two messages of the pair have the same \<open>createdAt\<close>.
\<close>

definition pagingStore :: "objectid \<Rightarrow> objectid \<Rightarrow> message_store \<Rightarrow> bool" where
  "pagingStore u other msgs =
     (distinct (map msg_id msgs)
      \<and> list_all (\<lambda>m. ObjectId_isValid (msg_id m) \<and> newObjectId (msg_id m) = msg_id m) msgs
      \<and> distinct (map createdAt (filter (baseQuery u other) msgs)))"

text \<open>What the read-marking update keeps of every message.\<close>

definition keepsKey :: "(Message \<Rightarrow> Message) \<Rightarrow> bool" where
  "keepsKey g = (\<forall>m. msg_id (g m) = msg_id m \<and> senderId (g m) = senderId m
                     \<and> receiverId (g m) = receiverId m \<and> createdAt (g m) = createdAt m)"

text \<open>The pending requests of an unordered pair of users.\<close>

definition pendingFor :: "request_store \<Rightarrow> objectid \<Rightarrow> objectid \<Rightarrow> ConnectionRequest list" where
  "pendingFor db a b = filter (\<lambda>r. pairMatch a b r \<and> status r = PENDING) db"

section \<open>Concrete scenarios\<close>

definition alice :: string where
  "alice = ''aaaaaaaaaaaaaaaaaaaaaaaa''"

definition bob :: string where
  "bob = ''bbbbbbbbbbbbbbbbbbbbbbbb''"

definition request1 :: objectid where
  "request1 = ''cccccccccccccccccccccc01''"

definition pending_ab :: request_store where
  "pending_ab = [\<lparr>cr_id = request1, requesterId = alice, recipientId = bob, status = PENDING\<rparr>]"

definition accepted_ab :: request_store where
  "accepted_ab = [\<lparr>cr_id = request1, requesterId = alice, recipientId = bob, status = ACCEPTED\<rparr>]"

definition mk_msg :: "objectid \<Rightarrow> string \<Rightarrow> string \<Rightarrow> string \<Rightarrow> bool \<Rightarrow> date \<Rightarrow> Message" where
  "mk_msg i s r txt rd t =
     \<lparr>msg_id = i, senderId = s, receiverId = r, content = txt, hasFile = False,
      fileKey = None, fileUrl = None, fileName = None, fileType = None, fileSize = None,
      isFileUploaded = False, isRead = rd, readAt = None, createdAt = t\<rparr>"

definition chat3 :: message_store where
  "chat3 = [mk_msg ''dddddddddddddddddddddd01'' alice bob ''hi'' False 1000,
            mk_msg ''dddddddddddddddddddddd02'' bob alice ''hello'' False 2000,
            mk_msg ''dddddddddddddddddddddd03'' alice bob ''bye'' False 3000]"

definition chat3_page1 :: MessagesPage where
  "chat3_page1 =
     \<lparr>messages = [formatMessage alice (chat3 ! 1), formatMessage alice (chat3 ! 2)],
      nextCursor = Some ''dddddddddddddddddddddd02'', hasMore = True, page_direction = Before\<rparr>"

definition chat3_read :: message_store where
  "chat3_read = [chat3 ! 0, (chat3 ! 1)\<lparr>isRead := True, readAt := Some 5000\<rparr>, chat3 ! 2]"

text \<open>A serialised task.\<close>

definition task_body :: string where
  "task_body = ''{\"messageId\":\"m1\"}''"

text \<open>
  Each user owns one album, both have favorited both albums, and each has reflected on a
  photo in the other's album.
\<close>

definition walked_together :: Collections where
  "walked_together =
     \<lparr>favorites = [\<lparr>fav_userId = alice, fav_albumId = ''eeeeeeeeeeeeeeeeeeeeee02''\<rparr>,
                   \<lparr>fav_userId = bob, fav_albumId = ''eeeeeeeeeeeeeeeeeeeeee01''\<rparr>,
                   \<lparr>fav_userId = alice, fav_albumId = ''eeeeeeeeeeeeeeeeeeeeee01''\<rparr>,
                   \<lparr>fav_userId = bob, fav_albumId = ''eeeeeeeeeeeeeeeeeeeeee02''\<rparr>],
      albums = [\<lparr>album_id = ''eeeeeeeeeeeeeeeeeeeeee01'', album_title = ''Alps'',
                 album_coverImage = None, album_userId = alice, album_isDeleted = False\<rparr>,
                \<lparr>album_id = ''eeeeeeeeeeeeeeeeeeeeee02'', album_title = ''Trek'',
                 album_coverImage = None, album_userId = bob, album_isDeleted = False\<rparr>],
      media = [\<lparr>media_id = ''ffffffffffffffffffffff01'',
                media_albumId = ''eeeeeeeeeeeeeeeeeeeeee01'', media_isDeleted = False\<rparr>,
               \<lparr>media_id = ''ffffffffffffffffffffff02'',
                media_albumId = ''eeeeeeeeeeeeeeeeeeeeee02'', media_isDeleted = False\<rparr>],
      mediaReflections =
        [\<lparr>mr_mediaId = ''ffffffffffffffffffffff02'', mr_userId = alice,
          mr_reflectionTypeId = ''000000000000000000000001'',
          mr_reflectionLabel = ''moment'', mr_reflectionEmoji = None\<rparr>,
         \<lparr>mr_mediaId = ''ffffffffffffffffffffff01'', mr_userId = bob,
          mr_reflectionTypeId = ''000000000000000000000001'',
          mr_reflectionLabel = ''moment'', mr_reflectionEmoji = None\<rparr>],
      reflections = []\<rparr>"

text \<open>
  As before, but Bob also owns a deleted album whose one photo is still stored undeleted
  (\<open>deleteAlbum\<close> marks the album only), and Alice's one reflection is on that photo.
\<close>

definition reflection_on_deleted_album :: Collections where
  "reflection_on_deleted_album =
     walked_together
       \<lparr>albums := albums walked_together @
          [\<lparr>album_id = ''eeeeeeeeeeeeeeeeeeeeee03'', album_title = ''Old trek'',
            album_coverImage = None, album_userId = bob, album_isDeleted = True\<rparr>],
        media := media walked_together @
          [\<lparr>media_id = ''ffffffffffffffffffffff03'',
            media_albumId = ''eeeeeeeeeeeeeeeeeeeeee03'', media_isDeleted = False\<rparr>],
        mediaReflections :=
          [\<lparr>mr_mediaId = ''ffffffffffffffffffffff03'', mr_userId = alice,
            mr_reflectionTypeId = ''000000000000000000000001'',
            mr_reflectionLabel = ''moment'', mr_reflectionEmoji = None\<rparr>,
           \<lparr>mr_mediaId = ''ffffffffffffffffffffff01'', mr_userId = bob,
            mr_reflectionTypeId = ''000000000000000000000001'',
            mr_reflectionLabel = ''moment'', mr_reflectionEmoji = None\<rparr>]\<rparr>"

text \<open>
  Alice's anonymous reflection on the photo in Bob's album, as \<open>addReflection\<close> stores it.
\<close>

definition anonymous_reflection :: Reflection where
  "anonymous_reflection =
     \<lparr>refl_mediaId = ''ffffffffffffffffffffff02'', refl_userId = alice,
      refl_reason = MOMENT, refl_note = None, refl_isAnonymous = True\<rparr>"

text \<open>
  The two users of \<open>walked_together\<close>, where Alice's reflection on Bob's photo is stored as
  that anonymous \<open>Reflection\<close> record only.
\<close>

definition anonymous_reflection_only :: Collections where
  "anonymous_reflection_only =
     walked_together
       \<lparr>mediaReflections := tl (mediaReflections walked_together),
        reflections := [anonymous_reflection]\<rparr>"

text \<open>The connection of Alice and Bob, as \<open>createConnection\<close> stores it.\<close>

definition connection1 :: TrailConnection where
  "connection1 =
     \<lparr>tc_id = ''999999999999999999999901'', userA = alice, userB = bob,
      mutualAlbumIds = [''eeeeeeeeeeeeeeeeeeeeee01'', ''eeeeeeeeeeeeeeeeeeeeee02''],
      tc_reflectionCount = 2, isActive = True\<rparr>"

text \<open>Two messages of the same pair with the same timestamp.\<close>

definition tied2 :: message_store where
  "tied2 = [mk_msg ''dddddddddddddddddddddd01'' alice bob ''one'' False 1000,
            mk_msg ''dddddddddddddddddddddd02'' alice bob ''two'' False 1000]"

definition request2 :: objectid where
  "request2 = ''cccccccccccccccccccccc02''"

text \<open>Pending requests in both directions for one pair.\<close>

definition pending_both :: request_store where
  "pending_both =
     [\<lparr>cr_id = request1, requesterId = alice, recipientId = bob, status = PENDING\<rparr>,
      \<lparr>cr_id = request2, requesterId = bob, recipientId = alice, status = PENDING\<rparr>]"

section \<open>Facts about the library model and the scenarios\<close>

lemma hexLower_idem: "hexLower (hexLower c) = hexLower c"
  by (simp add: hexLower_def)

lemma newObjectId_idem: "newObjectId (newObjectId s) = newObjectId s"
  by (simp add: newObjectId_def hexLower_idem)

lemma valid_alice: "ObjectId_isValid alice"
  by (simp add: alice_def ObjectId_isValid_def isHexChar_def)

lemma valid_bob: "ObjectId_isValid bob"
  by (simp add: bob_def ObjectId_isValid_def isHexChar_def)

lemma valid_request1: "ObjectId_isValid request1"
  by (simp add: request1_def ObjectId_isValid_def isHexChar_def)

lemma canon_alice: "newObjectId alice = alice"
  by (simp add: alice_def newObjectId_def hexLower_def)

lemma canon_bob: "newObjectId bob = bob"
  by (simp add: bob_def newObjectId_def hexLower_def)

lemma canon_request1: "newObjectId request1 = request1"
  by (simp add: request1_def newObjectId_def hexLower_def)

lemma alice_neq_bob: "alice \<noteq> bob" "bob \<noteq> alice"
  by (simp_all add: alice_def bob_def)

lemma connected_ab: "areConnected accepted_ab alice bob"
  by (simp add: areConnected_def valid_alice valid_bob canon_alice canon_bob accepted_ab_def
      findOnePair_def pairMatch_def)

section \<open>Responding to a connection request\<close>

lemma findRequestById_saveRequest:
  "findRequestById db i = Some r \<Longrightarrow>
     findRequestById (saveRequest db (r\<lparr>status := s\<rparr>)) i = Some (r\<lparr>status := s\<rparr>)"
  unfolding findRequestById_def saveRequest_def
  by (induction db) (auto split: if_splits)

lemma saveRequest_others:
  "filter (\<lambda>x. cr_id x \<noteq> cr_id d) (saveRequest db d) = filter (\<lambda>x. cr_id x \<noteq> cr_id d) db"
  unfolding saveRequest_def by (induction db) auto

lemma accept_decided:
  assumes "ObjectId_isValid userId" and "ObjectId_isValid requestId"
    and "findRequestById db (newObjectId requestId) = Some r" and "recipientId r = userId"
    and "status r \<noteq> PENDING"
  shows "acceptRequest db userId requestId =
           (Inl (BadRequestException (''Request is already '' @ statusString (status r))), db)"
  using assms by (simp add: acceptRequest_def)

lemma reject_decided:
  assumes "ObjectId_isValid userId" and "ObjectId_isValid requestId"
    and "findRequestById db (newObjectId requestId) = Some r" and "recipientId r = userId"
    and "status r \<noteq> PENDING"
  shows "rejectRequest db userId requestId =
           (Inl (BadRequestException (''Request is already '' @ statusString (status r))), db)"
  using assms by (simp add: rejectRequest_def)

lemma respond_valid:
  assumes "ObjectId_isValid userId" and "ObjectId_isValid requestId"
  shows "(findRequestById db (newObjectId requestId) = None \<longrightarrow>
            acceptRequest db userId requestId = (Inl (NotFoundException ''Request not found''), db)
          \<and> rejectRequest db userId requestId = (Inl (NotFoundException ''Request not found''), db))
       \<and> (\<forall>r. findRequestById db (newObjectId requestId) = Some r \<and> recipientId r \<noteq> userId \<longrightarrow>
            acceptRequest db userId requestId =
              (Inl (BadRequestException ''You are not the recipient of this request''), db)
          \<and> rejectRequest db userId requestId =
              (Inl (BadRequestException ''You are not the recipient of this request''), db))
       \<and> (\<forall>r. findRequestById db (newObjectId requestId) = Some r \<and> recipientId r = userId
              \<and> status r \<noteq> PENDING \<longrightarrow>
            acceptRequest db userId requestId =
              (Inl (BadRequestException (''Request is already '' @ statusString (status r))), db)
          \<and> rejectRequest db userId requestId =
              (Inl (BadRequestException (''Request is already '' @ statusString (status r))), db))
       \<and> (\<forall>r. findRequestById db (newObjectId requestId) = Some r \<and> recipientId r = userId
              \<and> status r = PENDING \<longrightarrow>
            (let db' = saveRequest db (r\<lparr>status := ACCEPTED\<rparr>) in
               acceptRequest db userId requestId = (Inr (cr_id r, ''Request accepted''), db')
             \<and> findRequestById db' (newObjectId requestId) = Some (r\<lparr>status := ACCEPTED\<rparr>)
             \<and> filter (\<lambda>x. cr_id x \<noteq> cr_id r) db' = filter (\<lambda>x. cr_id x \<noteq> cr_id r) db
             \<and> acceptRequest db' userId requestId =
                 (Inl (BadRequestException ''Request is already accepted''), db')
             \<and> rejectRequest db' userId requestId =
                 (Inl (BadRequestException ''Request is already accepted''), db'))
          \<and> (let db' = saveRequest db (r\<lparr>status := REJECTED\<rparr>) in
               rejectRequest db userId requestId = (Inr (cr_id r, ''Request rejected''), db')
             \<and> findRequestById db' (newObjectId requestId) = Some (r\<lparr>status := REJECTED\<rparr>)
             \<and> filter (\<lambda>x. cr_id x \<noteq> cr_id r) db' = filter (\<lambda>x. cr_id x \<noteq> cr_id r) db
             \<and> acceptRequest db' userId requestId =
                 (Inl (BadRequestException ''Request is already rejected''), db')
             \<and> rejectRequest db' userId requestId =
                 (Inl (BadRequestException ''Request is already rejected''), db')))"
proof (intro conjI allI impI)
  fix r
  assume h: "findRequestById db (newObjectId requestId) = Some r \<and> recipientId r = userId
              \<and> status r = PENDING"
  have fa: "findRequestById (saveRequest db (r\<lparr>status := ACCEPTED\<rparr>)) (newObjectId requestId)
              = Some (r\<lparr>status := ACCEPTED\<rparr>)"
    using h by (simp add: findRequestById_saveRequest)
  have fr: "findRequestById (saveRequest db (r\<lparr>status := REJECTED\<rparr>)) (newObjectId requestId)
              = Some (r\<lparr>status := REJECTED\<rparr>)"
    using h by (simp add: findRequestById_saveRequest)
  show "let db' = saveRequest db (r\<lparr>status := ACCEPTED\<rparr>) in
               acceptRequest db userId requestId = (Inr (cr_id r, ''Request accepted''), db')
             \<and> findRequestById db' (newObjectId requestId) = Some (r\<lparr>status := ACCEPTED\<rparr>)
             \<and> filter (\<lambda>x. cr_id x \<noteq> cr_id r) db' = filter (\<lambda>x. cr_id x \<noteq> cr_id r) db
             \<and> acceptRequest db' userId requestId =
                 (Inl (BadRequestException ''Request is already accepted''), db')
             \<and> rejectRequest db' userId requestId =
                 (Inl (BadRequestException ''Request is already accepted''), db')"
    unfolding Let_def
  proof (intro conjI)
    show "acceptRequest db userId requestId =
            (Inr (cr_id r, ''Request accepted''), saveRequest db (r\<lparr>status := ACCEPTED\<rparr>))"
      using assms h by (simp add: acceptRequest_def)
    show "findRequestById (saveRequest db (r\<lparr>status := ACCEPTED\<rparr>)) (newObjectId requestId)
            = Some (r\<lparr>status := ACCEPTED\<rparr>)" by (rule fa)
    show "filter (\<lambda>x. cr_id x \<noteq> cr_id r) (saveRequest db (r\<lparr>status := ACCEPTED\<rparr>))
            = filter (\<lambda>x. cr_id x \<noteq> cr_id r) db"
      using saveRequest_others [of "r\<lparr>status := ACCEPTED\<rparr>" db] by simp
    show "acceptRequest (saveRequest db (r\<lparr>status := ACCEPTED\<rparr>)) userId requestId =
            (Inl (BadRequestException ''Request is already accepted''),
             saveRequest db (r\<lparr>status := ACCEPTED\<rparr>))"
      using accept_decided [OF assms fa] h by simp
    show "rejectRequest (saveRequest db (r\<lparr>status := ACCEPTED\<rparr>)) userId requestId =
            (Inl (BadRequestException ''Request is already accepted''),
             saveRequest db (r\<lparr>status := ACCEPTED\<rparr>))"
      using reject_decided [OF assms fa] h by simp
  qed
  show "let db' = saveRequest db (r\<lparr>status := REJECTED\<rparr>) in
               rejectRequest db userId requestId = (Inr (cr_id r, ''Request rejected''), db')
             \<and> findRequestById db' (newObjectId requestId) = Some (r\<lparr>status := REJECTED\<rparr>)
             \<and> filter (\<lambda>x. cr_id x \<noteq> cr_id r) db' = filter (\<lambda>x. cr_id x \<noteq> cr_id r) db
             \<and> acceptRequest db' userId requestId =
                 (Inl (BadRequestException ''Request is already rejected''), db')
             \<and> rejectRequest db' userId requestId =
                 (Inl (BadRequestException ''Request is already rejected''), db')"
    unfolding Let_def
  proof (intro conjI)
    show "rejectRequest db userId requestId =
            (Inr (cr_id r, ''Request rejected''), saveRequest db (r\<lparr>status := REJECTED\<rparr>))"
      using assms h by (simp add: rejectRequest_def)
    show "findRequestById (saveRequest db (r\<lparr>status := REJECTED\<rparr>)) (newObjectId requestId)
            = Some (r\<lparr>status := REJECTED\<rparr>)" by (rule fr)
    show "filter (\<lambda>x. cr_id x \<noteq> cr_id r) (saveRequest db (r\<lparr>status := REJECTED\<rparr>))
            = filter (\<lambda>x. cr_id x \<noteq> cr_id r) db"
      using saveRequest_others [of "r\<lparr>status := REJECTED\<rparr>" db] by simp
    show "acceptRequest (saveRequest db (r\<lparr>status := REJECTED\<rparr>)) userId requestId =
            (Inl (BadRequestException ''Request is already rejected''),
             saveRequest db (r\<lparr>status := REJECTED\<rparr>))"
      using accept_decided [OF assms fr] h by simp
    show "rejectRequest (saveRequest db (r\<lparr>status := REJECTED\<rparr>)) userId requestId =
            (Inl (BadRequestException ''Request is already rejected''),
             saveRequest db (r\<lparr>status := REJECTED\<rparr>))"
      using reject_decided [OF assms fr] h by simp
  qed
qed (use assms in \<open>simp_all add: acceptRequest_def rejectRequest_def\<close>)

text \<open>
  Against C8 as stated: a request id that is not a well-formed ObjectId resolves to no record, yet the calls
  fail with "Invalid userId or requestId" and not with the not-found exception: the
  \<open>isValid\<close> guard runs before the lookup.
\<close>

theorem respond_malformed_id_counterexample:
  "findRequestById pending_ab ''nosuchrequest'' = None
   \<and> findRequestById pending_ab (newObjectId ''nosuchrequest'') = None
   \<and> acceptRequest pending_ab bob ''nosuchrequest''
       = (Inl (BadRequestException ''Invalid userId or requestId''), pending_ab)
   \<and> rejectRequest pending_ab bob ''nosuchrequest''
       = (Inl (BadRequestException ''Invalid userId or requestId''), pending_ab)"
  by (simp add: findRequestById_def pending_ab_def request1_def newObjectId_def hexLower_def
      acceptRequest_def rejectRequest_def ObjectId_isValid_def)

text \<open>
  C8, with the guard on malformed ids. \<open>acceptRequest\<close> and \<open>rejectRequest\<close> fail with
  "Invalid userId or requestId" when the caller's id or the request id is malformed. For
  well-formed ids they fail with the not-found exception when the request id resolves to no
  record, with "You are not the recipient of this request" (the spec's Forbidden; a
  BadRequestException) when the caller is not the recipient, and with "Request is
  already ..." (the spec's Conflict; a BadRequestException) when the status is not
  pending. Every failure leaves the collection as it was. On success the request, and no
  other document, goes from pending to the decided status, and applying either decision
  again to it is rejected with the Conflict exception and changes nothing.
\<close>

theorem respond_outcomes:
  "(\<not> ObjectId_isValid userId \<or> \<not> ObjectId_isValid requestId \<longrightarrow>
      acceptRequest db userId requestId
        = (Inl (BadRequestException ''Invalid userId or requestId''), db)
    \<and> rejectRequest db userId requestId
        = (Inl (BadRequestException ''Invalid userId or requestId''), db))
 \<and> (ObjectId_isValid userId \<and> ObjectId_isValid requestId \<longrightarrow>
       (findRequestById db (newObjectId requestId) = None \<longrightarrow>
            acceptRequest db userId requestId = (Inl (NotFoundException ''Request not found''), db)
          \<and> rejectRequest db userId requestId = (Inl (NotFoundException ''Request not found''), db))
       \<and> (\<forall>r. findRequestById db (newObjectId requestId) = Some r \<and> recipientId r \<noteq> userId \<longrightarrow>
            acceptRequest db userId requestId =
              (Inl (BadRequestException ''You are not the recipient of this request''), db)
          \<and> rejectRequest db userId requestId =
              (Inl (BadRequestException ''You are not the recipient of this request''), db))
       \<and> (\<forall>r. findRequestById db (newObjectId requestId) = Some r \<and> recipientId r = userId
              \<and> status r \<noteq> PENDING \<longrightarrow>
            acceptRequest db userId requestId =
              (Inl (BadRequestException (''Request is already '' @ statusString (status r))), db)
          \<and> rejectRequest db userId requestId =
              (Inl (BadRequestException (''Request is already '' @ statusString (status r))), db))
       \<and> (\<forall>r. findRequestById db (newObjectId requestId) = Some r \<and> recipientId r = userId
              \<and> status r = PENDING \<longrightarrow>
            (let db' = saveRequest db (r\<lparr>status := ACCEPTED\<rparr>) in
               acceptRequest db userId requestId = (Inr (cr_id r, ''Request accepted''), db')
             \<and> findRequestById db' (newObjectId requestId) = Some (r\<lparr>status := ACCEPTED\<rparr>)
             \<and> filter (\<lambda>x. cr_id x \<noteq> cr_id r) db' = filter (\<lambda>x. cr_id x \<noteq> cr_id r) db
             \<and> acceptRequest db' userId requestId =
                 (Inl (BadRequestException ''Request is already accepted''), db')
             \<and> rejectRequest db' userId requestId =
                 (Inl (BadRequestException ''Request is already accepted''), db'))
          \<and> (let db' = saveRequest db (r\<lparr>status := REJECTED\<rparr>) in
               rejectRequest db userId requestId = (Inr (cr_id r, ''Request rejected''), db')
             \<and> findRequestById db' (newObjectId requestId) = Some (r\<lparr>status := REJECTED\<rparr>)
             \<and> filter (\<lambda>x. cr_id x \<noteq> cr_id r) db' = filter (\<lambda>x. cr_id x \<noteq> cr_id r) db
             \<and> acceptRequest db' userId requestId =
                 (Inl (BadRequestException ''Request is already rejected''), db')
             \<and> rejectRequest db' userId requestId =
                 (Inl (BadRequestException ''Request is already rejected''), db'))))"
  (is "?malformed \<and> ?wellformed")
proof (rule conjI)
  show ?malformed
    by (auto simp: acceptRequest_def rejectRequest_def)
next
  show ?wellformed
    by (rule impI) (rule respond_valid, simp_all)
qed

theorem respond_outcomes_witness:
  "ObjectId_isValid bob \<and> ObjectId_isValid request1
   \<and> findRequestById pending_ab (newObjectId request1) = Some (hd pending_ab)
   \<and> recipientId (hd pending_ab) = bob \<and> status (hd pending_ab) = PENDING
   \<and> acceptRequest pending_ab bob request1 = (Inr (request1, ''Request accepted''), accepted_ab)
   \<and> acceptRequest accepted_ab bob request1 =
       (Inl (BadRequestException ''Request is already accepted''), accepted_ab)
   \<and> rejectRequest accepted_ab bob request1 =
       (Inl (BadRequestException ''Request is already accepted''), accepted_ab)"
proof -
  have f: "findRequestById pending_ab (newObjectId request1) = Some (hd pending_ab)
           \<and> recipientId (hd pending_ab) = bob \<and> status (hd pending_ab) = PENDING"
    by (simp add: findRequestById_def pending_ab_def canon_request1)
  have s: "saveRequest pending_ab ((hd pending_ab)\<lparr>status := ACCEPTED\<rparr>) = accepted_ab"
    by (simp add: saveRequest_def pending_ab_def accepted_ab_def)
  have c: "cr_id (hd pending_ab) = request1"
    by (simp add: pending_ab_def)
  from respond_outcomes [of bob request1 pending_ab] valid_bob valid_request1 f
  have "let db' = saveRequest pending_ab ((hd pending_ab)\<lparr>status := ACCEPTED\<rparr>) in
          acceptRequest pending_ab bob request1
            = (Inr (cr_id (hd pending_ab), ''Request accepted''), db')
        \<and> findRequestById db' (newObjectId request1) = Some ((hd pending_ab)\<lparr>status := ACCEPTED\<rparr>)
        \<and> filter (\<lambda>x. cr_id x \<noteq> cr_id (hd pending_ab)) db'
            = filter (\<lambda>x. cr_id x \<noteq> cr_id (hd pending_ab)) pending_ab
        \<and> acceptRequest db' bob request1 =
            (Inl (BadRequestException ''Request is already accepted''), db')
        \<and> rejectRequest db' bob request1 =
            (Inl (BadRequestException ''Request is already accepted''), db')"
    by blast
  then show ?thesis
    using f valid_bob valid_request1 by (simp add: Let_def s c)
qed

section \<open>getMessages: read receipts and the reported read state\<close>

lemma set_sortMessages: "set (sortMessages d xs) = set xs"
  by (cases d) (simp_all add: sortMessages_def)

lemma set_fetchPage:
  "set (fst (fetchPage msgs u other cond limit d)) \<subseteq> {m \<in> set msgs. baseQuery u other m \<and> cond m}"
  unfolding fetchPage_def Let_def
  by (auto simp: set_sortMessages dest!: in_set_takeD)

lemma getMessages_page:
  assumes "getMessages crs msgs now userId other cursor limit d = (Inr page, msgs')"
  obtains sel where
    "messages page = map (formatMessage userId) sel"
    "set sel \<subseteq> {m \<in> set msgs. baseQuery (newObjectId userId) (newObjectId other) m}"
    "msgs' = (if filter (\<lambda>m. receiverId m = userId \<and> \<not> isRead m) sel = [] then msgs
              else markRead msgs (map msg_id (filter (\<lambda>m. receiverId m = userId \<and> \<not> isRead m) sel)) now)"
proof -
  from assms obtain cond where c: "cursorCondition msgs cursor d = Inr cond"
    by (auto simp: getMessages_def split: if_splits sum.splits)
  let ?sel = "fst (fetchPage msgs (newObjectId userId) (newObjectId other) cond limit d)"
  have "messages page = map (formatMessage userId) ?sel"
    using assms c by (auto simp: getMessages_def Let_def split: if_splits)
  moreover have "set ?sel \<subseteq> {m \<in> set msgs. baseQuery (newObjectId userId) (newObjectId other) m}"
    using set_fetchPage [of msgs "newObjectId userId" "newObjectId other" cond limit d] by blast
  moreover have "msgs' = (if filter (\<lambda>m. receiverId m = userId \<and> \<not> isRead m) ?sel = [] then msgs
              else markRead msgs (map msg_id (filter (\<lambda>m. receiverId m = userId \<and> \<not> isRead m) ?sel)) now)"
    using assms c by (auto simp: getMessages_def Let_def split: if_splits)
  ultimately show ?thesis using that by blast
qed


lemma markRead_length: "length (markRead msgs ids now) = length msgs"
  by (simp add: markRead_def)

lemma findMessageById_markRead:
  assumes "i \<in> set ids" and "m \<in> set msgs" and "msg_id m = i"
  shows "\<exists>m'. findMessageById (markRead msgs ids now) i = Some m' \<and> isRead m'
              \<and> readAt m' = Some now"
  using assms unfolding findMessageById_def markRead_def
  by (induction msgs) auto

lemma distinct_ids_eq:
  "distinct (map msg_id msgs) \<Longrightarrow> a \<in> set msgs \<Longrightarrow> b \<in> set msgs \<Longrightarrow> msg_id a = msg_id b \<Longrightarrow> a = b"
  by (auto simp: distinct_map dest: inj_onD)

lemma sender_not_receiver:
  assumes "newObjectId userId \<noteq> newObjectId other"
    and "baseQuery (newObjectId userId) (newObjectId other) m"
    and "senderId m = newObjectId userId"
  shows "receiverId m \<noteq> userId"
proof
  assume r: "receiverId m = userId"
  from assms(2,3) assms(1) have "receiverId m = newObjectId other"
    by (auto simp: baseQuery_def)
  with r have "newObjectId userId = newObjectId (newObjectId other)" by simp
  with assms(1) show False by (simp add: newObjectId_idem)
qed

lemma getMessages_marked:
  assumes "getMessages crs msgs now userId other cursor limit d = (Inr page, msgs')"
    and v: "v \<in> set (messages page)" and r: "mv_receiverId v = userId" "\<not> mv_isRead v"
  shows "\<exists>m'. findMessageById msgs' (mv_id v) = Some m' \<and> isRead m' \<and> readAt m' = Some now"
proof -
  from assms(1) obtain sel where
    page: "messages page = map (formatMessage userId) sel" and
    sel: "set sel \<subseteq> {m \<in> set msgs. baseQuery (newObjectId userId) (newObjectId other) m}" and
    upd: "msgs' = (if filter (\<lambda>m. receiverId m = userId \<and> \<not> isRead m) sel = [] then msgs
              else markRead msgs (map msg_id (filter (\<lambda>m. receiverId m = userId \<and> \<not> isRead m) sel)) now)"
    by (rule getMessages_page)
  let ?unread = "filter (\<lambda>m. receiverId m = userId \<and> \<not> isRead m) sel"
  from v page obtain m where m: "m \<in> set sel" "v = formatMessage userId m" by auto
  with r have u: "m \<in> set ?unread" by (auto simp: formatMessage_def)
  then have ne: "?unread \<noteq> []" by (metis empty_iff empty_set)
  have "msg_id m \<in> set (map msg_id ?unread)" using u by (simp del: set_filter)
  moreover have "m \<in> set msgs" using m sel by auto
  ultimately have "\<exists>m'. findMessageById (markRead msgs (map msg_id ?unread) now) (msg_id m) = Some m'
                    \<and> isRead m' \<and> readAt m' = Some now"
    by (rule findMessageById_markRead) simp
  then show ?thesis using upd ne m by (simp add: formatMessage_def)
qed

text \<open>
  C9. When \<open>getMessages\<close> returns a page, every message of the page that the caller
  received and that is reported unread (its stored \<open>isRead\<close> was false) is stored
  afterwards with \<open>isRead = true\<close> and \<open>readAt = now\<close>, where \<open>now\<close> is the clock reading
  taken by the call for the update. No document is added or removed; with unique message
  ids every stored message whose receiver is not the caller is left as it was, and so is,
  for two different users, every message of the page that the caller sent.
\<close>

theorem getMessages_marks_read:
  assumes "getMessages crs msgs now userId other cursor limit d = (Inr page, msgs')"
  shows "(\<forall>v\<in>set (messages page). mv_receiverId v = userId \<and> \<not> mv_isRead v \<longrightarrow>
            (\<exists>m'. findMessageById msgs' (mv_id v) = Some m' \<and> isRead m' \<and> readAt m' = Some now))
       \<and> length msgs' = length msgs
       \<and> (distinct (map msg_id msgs) \<longrightarrow>
            (\<forall>i<length msgs. receiverId (msgs ! i) \<noteq> userId \<longrightarrow> msgs' ! i = msgs ! i)
          \<and> (newObjectId userId \<noteq> newObjectId other \<longrightarrow>
               (\<forall>v\<in>set (messages page). mv_senderId v = newObjectId userId \<longrightarrow>
                  (\<exists>i<length msgs. msg_id (msgs ! i) = mv_id v \<and> msgs' ! i = msgs ! i))))"
proof -
  from assms obtain sel where
    page: "messages page = map (formatMessage userId) sel" and
    sel: "set sel \<subseteq> {m \<in> set msgs. baseQuery (newObjectId userId) (newObjectId other) m}" and
    upd: "msgs' = (if filter (\<lambda>m. receiverId m = userId \<and> \<not> isRead m) sel = [] then msgs
              else markRead msgs (map msg_id (filter (\<lambda>m. receiverId m = userId \<and> \<not> isRead m) sel)) now)"
    by (rule getMessages_page)
  let ?unread = "filter (\<lambda>m. receiverId m = userId \<and> \<not> isRead m) sel"
  have marked: "\<exists>m'. findMessageById msgs' (mv_id v) = Some m' \<and> isRead m' \<and> readAt m' = Some now"
    if "v \<in> set (messages page)" and "mv_receiverId v = userId" "\<not> mv_isRead v" for v
    using getMessages_marked [OF assms that] .
  have len: "length msgs' = length msgs"
    using upd by (simp add: markRead_length)
  have keep: "msgs' ! i = msgs ! i"
    if d: "distinct (map msg_id msgs)" and i: "i < length msgs" "receiverId (msgs ! i) \<noteq> userId" for i
  proof -
    have "msg_id (msgs ! i) \<notin> set (map msg_id ?unread)"
    proof
      assume "msg_id (msgs ! i) \<in> set (map msg_id ?unread)"
      then obtain m where m: "m \<in> set sel" "receiverId m = userId" "msg_id m = msg_id (msgs ! i)"
        by auto
      have "m = msgs ! i"
        using d m sel i by (intro distinct_ids_eq [of msgs]) auto
      with m i show False by simp
    qed
    then show ?thesis using upd i by (simp add: markRead_def)
  qed
  have sent: "\<exists>i<length msgs. msg_id (msgs ! i) = mv_id v \<and> msgs' ! i = msgs ! i"
    if d: "distinct (map msg_id msgs)" and ne: "newObjectId userId \<noteq> newObjectId other"
      and v: "v \<in> set (messages page)" "mv_senderId v = newObjectId userId" for v
  proof -
    from v page obtain m where m: "m \<in> set sel" "v = formatMessage userId m" by auto
    then have s: "senderId m = newObjectId userId" using v by (simp add: formatMessage_def)
    have b: "baseQuery (newObjectId userId) (newObjectId other) m" and mm: "m \<in> set msgs"
      using m sel by auto
    have r: "receiverId m \<noteq> userId" using ne b s by (rule sender_not_receiver)
    from mm obtain i where i: "i < length msgs" "msgs ! i = m" by (auto simp: in_set_conv_nth)
    then have "msgs' ! i = msgs ! i" using keep d r by simp
    then show ?thesis using i m by (auto simp: formatMessage_def)
  qed
  show ?thesis using marked len keep sent by blast
qed

text \<open>
  C10. Every entry of the returned \<open>messages\<close> array is the formatted copy of a message
  stored before the call. Its \<open>isRead\<close> is true when the caller is not the receiver, in
  particular (for two different users) when the caller is the sender; when the caller is
  the receiver it is the value stored before the call, so a message that this call marks
  read in the store is still reported with \<open>isRead = false\<close>.
\<close>

theorem getMessages_reported_isRead:
  assumes "getMessages crs msgs now userId other cursor limit d = (Inr page, msgs')"
  shows "\<forall>v\<in>set (messages page). \<exists>m\<in>set msgs. v = formatMessage userId m
          \<and> (receiverId m \<noteq> userId \<longrightarrow> mv_isRead v)
          \<and> (newObjectId userId \<noteq> newObjectId other \<and> senderId m = newObjectId userId
               \<longrightarrow> mv_isRead v)
          \<and> (receiverId m = userId \<longrightarrow> mv_isRead v = isRead m)
          \<and> (receiverId m = userId \<and> \<not> isRead m \<longrightarrow>
               \<not> mv_isRead v
               \<and> (\<exists>m'. findMessageById msgs' (msg_id m) = Some m' \<and> isRead m'))"
proof
  fix v assume v: "v \<in> set (messages page)"
  from assms obtain sel where
    page: "messages page = map (formatMessage userId) sel" and
    sel: "set sel \<subseteq> {m \<in> set msgs. baseQuery (newObjectId userId) (newObjectId other) m}"
    by (rule getMessages_page)
  from v page obtain m where m: "m \<in> set sel" "v = formatMessage userId m" by auto
  have mm: "m \<in> set msgs" and b: "baseQuery (newObjectId userId) (newObjectId other) m"
    using m sel by auto
  have 1: "receiverId m \<noteq> userId \<longrightarrow> mv_isRead v" using m by (simp add: formatMessage_def)
  have 2: "newObjectId userId \<noteq> newObjectId other \<and> senderId m = newObjectId userId
               \<longrightarrow> mv_isRead v"
    using sender_not_receiver [OF _ b] 1 by blast
  have 3: "receiverId m = userId \<longrightarrow> mv_isRead v = isRead m"
    using m by (simp add: formatMessage_def)
  have 4: "receiverId m = userId \<and> \<not> isRead m \<longrightarrow>
               \<not> mv_isRead v \<and> (\<exists>m'. findMessageById msgs' (msg_id m) = Some m' \<and> isRead m')"
  proof
    assume h: "receiverId m = userId \<and> \<not> isRead m"
    then have a: "mv_receiverId v = userId \<and> \<not> mv_isRead v" using m by (simp add: formatMessage_def)
    have "\<exists>m'. findMessageById msgs' (mv_id v) = Some m' \<and> isRead m' \<and> readAt m' = Some now"
      using getMessages_marked [OF assms v] a by blast
    then show "\<not> mv_isRead v \<and> (\<exists>m'. findMessageById msgs' (msg_id m) = Some m' \<and> isRead m')"
      using a m by (auto simp: formatMessage_def)
  qed
  show "\<exists>m\<in>set msgs. v = formatMessage userId m
          \<and> (receiverId m \<noteq> userId \<longrightarrow> mv_isRead v)
          \<and> (newObjectId userId \<noteq> newObjectId other \<and> senderId m = newObjectId userId
               \<longrightarrow> mv_isRead v)
          \<and> (receiverId m = userId \<longrightarrow> mv_isRead v = isRead m)
          \<and> (receiverId m = userId \<and> \<not> isRead m \<longrightarrow>
               \<not> mv_isRead v
               \<and> (\<exists>m'. findMessageById msgs' (msg_id m) = Some m' \<and> isRead m'))"
    using mm m 1 2 3 4 by blast
qed


lemma getMessages_chat3:
  "getMessages accepted_ab chat3 5000 alice bob None 2 Before = (Inr chat3_page1, chat3_read)"
  by (simp add: getMessages_def valid_alice valid_bob connected_ab cursorCondition_def
      fetchPage_def canon_alice canon_bob chat3_def mk_msg_def baseQuery_def alice_neq_bob
      sortMessages_def Let_def markRead_def formatMessage_def chat3_page1_def chat3_read_def)

theorem getMessages_marks_read_witness:
  "getMessages accepted_ab chat3 5000 alice bob None 2 Before = (Inr chat3_page1, chat3_read)
   \<and> formatMessage alice (chat3 ! 1) \<in> set (messages chat3_page1)
   \<and> mv_receiverId (formatMessage alice (chat3 ! 1)) = alice
   \<and> \<not> mv_isRead (formatMessage alice (chat3 ! 1))
   \<and> (\<exists>m'. findMessageById chat3_read ''dddddddddddddddddddddd02'' = Some m' \<and> isRead m'
             \<and> readAt m' = Some 5000)
   \<and> distinct (map msg_id chat3) \<and> newObjectId alice \<noteq> newObjectId bob
   \<and> formatMessage alice (chat3 ! 2) \<in> set (messages chat3_page1)
   \<and> mv_senderId (formatMessage alice (chat3 ! 2)) = newObjectId alice
   \<and> (\<exists>i<length chat3. msg_id (chat3 ! i) = ''dddddddddddddddddddddd03''
                          \<and> chat3_read ! i = chat3 ! i)"
proof -
  note t = getMessages_marks_read [OF getMessages_chat3]
  have v1: "formatMessage alice (chat3 ! 1) \<in> set (messages chat3_page1)"
    and v2: "formatMessage alice (chat3 ! 2) \<in> set (messages chat3_page1)"
    by (simp_all add: chat3_page1_def)
  have r1: "mv_receiverId (formatMessage alice (chat3 ! 1)) = alice
            \<and> \<not> mv_isRead (formatMessage alice (chat3 ! 1))"
    by (simp add: formatMessage_def chat3_def mk_msg_def)
  have i1: "mv_id (formatMessage alice (chat3 ! 1)) = ''dddddddddddddddddddddd02''"
    and i2: "mv_id (formatMessage alice (chat3 ! 2)) = ''dddddddddddddddddddddd03''"
    by (simp_all add: formatMessage_def chat3_def mk_msg_def)
  have s2: "mv_senderId (formatMessage alice (chat3 ! 2)) = newObjectId alice"
    by (simp add: formatMessage_def chat3_def mk_msg_def canon_alice)
  have d: "distinct (map msg_id chat3)"
    by (simp add: chat3_def mk_msg_def)
  have ne: "newObjectId alice \<noteq> newObjectId bob"
    by (simp add: canon_alice canon_bob alice_neq_bob)
  from t v1 r1 have a: "\<exists>m'. findMessageById chat3_read (mv_id (formatMessage alice (chat3 ! 1))) = Some m'
      \<and> isRead m' \<and> readAt m' = Some 5000"
    by blast
  from t d ne v2 s2
  have b: "\<exists>i<length chat3. msg_id (chat3 ! i) = mv_id (formatMessage alice (chat3 ! 2))
                          \<and> chat3_read ! i = chat3 ! i"
    by blast
  show ?thesis
    using getMessages_chat3 v1 v2 r1 s2 d ne a b by (simp only: i1 i2 simp_thms)
qed

theorem getMessages_reported_isRead_witness:
  "getMessages accepted_ab chat3 5000 alice bob None 2 Before = (Inr chat3_page1, chat3_read)
   \<and> formatMessage alice (chat3 ! 1) \<in> set (messages chat3_page1)
   \<and> (\<exists>m\<in>set chat3. formatMessage alice (chat3 ! 1) = formatMessage alice m
         \<and> (receiverId m = alice \<and> \<not> isRead m \<longrightarrow>
              \<not> mv_isRead (formatMessage alice (chat3 ! 1))
              \<and> (\<exists>m'. findMessageById chat3_read (msg_id m) = Some m' \<and> isRead m')))
   \<and> receiverId (chat3 ! 1) = alice \<and> \<not> isRead (chat3 ! 1)
   \<and> receiverId (chat3 ! 2) \<noteq> alice \<and> senderId (chat3 ! 2) = newObjectId alice
   \<and> newObjectId alice \<noteq> newObjectId bob"
proof -
  note t = getMessages_reported_isRead [OF getMessages_chat3]
  have v1: "formatMessage alice (chat3 ! 1) \<in> set (messages chat3_page1)"
    by (simp add: chat3_page1_def)
  from t v1 have "\<exists>m\<in>set chat3. formatMessage alice (chat3 ! 1) = formatMessage alice m
         \<and> (receiverId m = alice \<and> \<not> isRead m \<longrightarrow>
              \<not> mv_isRead (formatMessage alice (chat3 ! 1))
              \<and> (\<exists>m'. findMessageById chat3_read (msg_id m) = Some m' \<and> isRead m'))"
    by blast
  moreover have "receiverId (chat3 ! 1) = alice \<and> \<not> isRead (chat3 ! 1)
   \<and> receiverId (chat3 ! 2) \<noteq> alice \<and> senderId (chat3 ! 2) = newObjectId alice
   \<and> newObjectId alice \<noteq> newObjectId bob"
    by (simp add: chat3_def mk_msg_def canon_alice canon_bob alice_neq_bob)
  ultimately show ?thesis using getMessages_chat3 v1 by blast
qed

section \<open>sendMessage requires an accepted connection\<close>

lemma areConnected_iff:
  assumes "ObjectId_isValid a" and "ObjectId_isValid b"
  shows "areConnected crs a b =
           list_ex (\<lambda>r. pairMatch (newObjectId a) (newObjectId b) r \<and> status r = ACCEPTED) crs"
  using assms by (auto simp: areConnected_def findOnePair_def find_None_iff list_ex_iff)

text \<open>
  C2. For well-formed, different ids \<open>a\<close> and \<open>b\<close>, \<open>sendMessage\<close> fails with the exception
  "Users must be connected to send messages" (the spec's Precondition) exactly when
  \<open>areConnected\<close> is false at the call, and then the message collection is unchanged.
  \<open>areConnected\<close> holds exactly when an accepted request for the pair is stored in either
  direction. For such ids the one other failure is the insert refused for an empty
  \<open>content\<close>: it is thrown as "Failed to send message: ...", not as the Precondition
  error, and stores nothing either. In every remaining case the new document, and nothing
  else, is appended.
\<close>

theorem sendMessage_precondition:
  assumes "ObjectId_isValid a" and "ObjectId_isValid b" and "a \<noteq> b"
  shows "(fst (sendMessage crs msgs newId now a b txt fd)
            = Inl (BadRequestException ''Users must be connected to send messages''))
          = (\<not> areConnected crs a b)
       \<and> (\<not> areConnected crs a b \<longrightarrow> snd (sendMessage crs msgs newId now a b txt fd) = msgs)
       \<and> areConnected crs a b =
            list_ex (\<lambda>r. pairMatch (newObjectId a) (newObjectId b) r \<and> status r = ACCEPTED) crs
       \<and> (\<exists>e. fst (sendMessage crs msgs newId now a b txt fd) = Inl e)
            = (\<not> areConnected crs a b \<or> txt = [])
       \<and> ((\<exists>e. fst (sendMessage crs msgs newId now a b txt fd) = Inl e) \<longrightarrow>
            snd (sendMessage crs msgs newId now a b txt fd) = msgs)
       \<and> (areConnected crs a b \<and> txt = [] \<longrightarrow>
            fst (sendMessage crs msgs newId now a b txt fd)
              = Inl (BadRequestException
                  ''Failed to send message: Message validation failed: content: Path `content` is required.''))
       \<and> (areConnected crs a b \<and> txt \<noteq> [] \<longrightarrow>
            (\<exists>m. snd (sendMessage crs msgs newId now a b txt fd) = msgs @ [m]
                 \<and> msg_id m = newId \<and> senderId m = newObjectId a
                 \<and> receiverId m = newObjectId b \<and> content m = txt \<and> \<not> isRead m
                 \<and> createdAt m = now))"
proof -
  have c: "areConnected crs a b =
            list_ex (\<lambda>r. pairMatch (newObjectId a) (newObjectId b) r \<and> status r = ACCEPTED) crs"
    by (rule areConnected_iff [OF assms(1,2)])
  show ?thesis
  proof (cases "areConnected crs a b")
    case False
    with assms c show ?thesis by (simp add: sendMessage_def)
  next
    case True
    show ?thesis
    proof (cases "txt = []")
      case e: True
      with True assms c show ?thesis
        by (simp add: sendMessage_def createMessage_def Let_def)
    next
      case e: False
      with True assms c show ?thesis
        by (simp add: sendMessage_def createMessage_def Let_def)
    qed
  qed
qed

theorem sendMessage_precondition_witness:
  "ObjectId_isValid alice \<and> ObjectId_isValid bob \<and> alice \<noteq> bob
   \<and> \<not> areConnected pending_ab alice bob
   \<and> sendMessage pending_ab [] ''dddddddddddddddddddddd01'' 1000 alice bob ''hi'' None
       = (Inl (BadRequestException ''Users must be connected to send messages''), [])
   \<and> areConnected accepted_ab alice bob
   \<and> map content (snd (sendMessage accepted_ab [] ''dddddddddddddddddddddd01'' 1000 alice bob
                           ''hi'' None)) = [''hi'']
   \<and> sendMessage accepted_ab [] ''dddddddddddddddddddddd01'' 1000 alice bob [] None
       = (Inl (BadRequestException
            ''Failed to send message: Message validation failed: content: Path `content` is required.''),
          [])"
proof -
  note t = sendMessage_precondition [OF valid_alice valid_bob alice_neq_bob(1)]
  have n: "\<not> areConnected pending_ab alice bob"
    by (simp add: areConnected_def valid_alice valid_bob canon_alice canon_bob pending_ab_def
      findOnePair_def pairMatch_def)
  from t [of pending_ab "[]" "''dddddddddddddddddddddd01''" 1000 "''hi''" None] n
  have "fst (sendMessage pending_ab [] ''dddddddddddddddddddddd01'' 1000 alice bob ''hi'' None)
          = Inl (BadRequestException ''Users must be connected to send messages'')
        \<and> snd (sendMessage pending_ab [] ''dddddddddddddddddddddd01'' 1000 alice bob ''hi'' None) = []"
    by blast
  then have 1: "sendMessage pending_ab [] ''dddddddddddddddddddddd01'' 1000 alice bob ''hi'' None
       = (Inl (BadRequestException ''Users must be connected to send messages''), [])"
    by (simp add: prod_eq_iff)
  from t [of accepted_ab "[]" "''dddddddddddddddddddddd01''" 1000 "''hi''" None] connected_ab
  have "\<exists>m. snd (sendMessage accepted_ab [] ''dddddddddddddddddddddd01'' 1000 alice bob
                    ''hi'' None) = [] @ [m] \<and> content m = ''hi''"
    by auto
  then have 2: "map content (snd (sendMessage accepted_ab [] ''dddddddddddddddddddddd01'' 1000
                    alice bob ''hi'' None)) = [''hi'']"
    by auto
  from t [of accepted_ab "[]" "''dddddddddddddddddddddd01''" 1000 "[]" None] connected_ab
  have "fst (sendMessage accepted_ab [] ''dddddddddddddddddddddd01'' 1000 alice bob [] None)
          = Inl (BadRequestException
              ''Failed to send message: Message validation failed: content: Path `content` is required.'')
        \<and> snd (sendMessage accepted_ab [] ''dddddddddddddddddddddd01'' 1000 alice bob [] None) = []"
    by blast
  then have 3: "sendMessage accepted_ab [] ''dddddddddddddddddddddd01'' 1000 alice bob [] None
       = (Inl (BadRequestException
            ''Failed to send message: Message validation failed: content: Path `content` is required.''),
          [])"
    by (simp add: prod_eq_iff)
  show ?thesis using valid_alice valid_bob alice_neq_bob(1) n 1 connected_ab 2 3 by blast
qed

section \<open>Retry and dead-lettering in the consumers\<close>

lemma queue_neq_dlq: "queue k \<noteq> deadLetterQueue k" "deadLetterQueue k \<noteq> queue k"
  by (cases k; simp)+

lemma runConsumer_append:
  "runConsumer k (xs @ ys) b = runConsumer k ys (runConsumer k xs b)"
  by (induction xs arbitrary: b) simp_all

lemma timers_reset: "timers b = [] \<Longrightarrow> b\<lparr>timers := []\<rparr> = b"
  by (cases b) simp

lemma runConsumer_idle:
  "queues b (queue k) = [] \<Longrightarrow> timers b = [] \<Longrightarrow> runConsumer k oks b = b"
  by (induction oks) (simp_all add: consumeNext_def fireTimers_def timers_reset)

lemma three_failures:
  "runConsumer k [False, False, False] (publishTask k body emptyBroker)
     = \<lparr>queues = (\<lambda>q. [])
          (queue k := [\<lparr>payload = body,
                         properties = \<lparr>headers = Some [(''x-retry-count'', 3)],
                                       persistent = True\<rparr>\<rparr>]),
         timers = [],
         processed =
           [(queue k, \<lparr>payload = body, properties = \<lparr>headers = None, persistent = True\<rparr>\<rparr>),
            (queue k, \<lparr>payload = body,
                        properties = \<lparr>headers = Some [(''x-retry-count'', 1)],
                                      persistent = True\<rparr>\<rparr>),
            (queue k, \<lparr>payload = body,
                        properties = \<lparr>headers = Some [(''x-retry-count'', 2)],
                                      persistent = True\<rparr>\<rparr>)]\<rparr>"
  by (simp add: publishTask_def emptyBroker_def sendToQueue_def consumeNext_def onMessage_def
      fireTimers_def retryCountOf_def withRetryCount_def maxRetries_def Let_def queue_neq_dlq
      numeral_3_eq_3)

lemma fourth_failure:
  "runConsumer k [False] (runConsumer k [False, False, False] (publishTask k body emptyBroker))
     = \<lparr>queues = (\<lambda>q. [])
          (queue k := [],
           deadLetterQueue k :=
             [\<lparr>payload = body, properties = \<lparr>headers = None, persistent = True\<rparr>\<rparr>]),
         timers = [],
         processed =
           [(queue k, \<lparr>payload = body, properties = \<lparr>headers = None, persistent = True\<rparr>\<rparr>),
            (queue k, \<lparr>payload = body,
                        properties = \<lparr>headers = Some [(''x-retry-count'', 1)],
                                      persistent = True\<rparr>\<rparr>),
            (queue k, \<lparr>payload = body,
                        properties = \<lparr>headers = Some [(''x-retry-count'', 2)],
                                      persistent = True\<rparr>\<rparr>),
            (queue k, \<lparr>payload = body,
                        properties = \<lparr>headers = Some [(''x-retry-count'', 3)],
                                      persistent = True\<rparr>\<rparr>)]\<rparr>"
  unfolding three_failures
  by (simp add: sendToQueue_def consumeNext_def onMessage_def
      fireTimers_def retryCountOf_def maxRetries_def Let_def queue_neq_dlq)

text \<open>
  Against C3 as stated: a notification task whose processing fails three times and then succeeds; the handler
  republishes after each of the three failures, so a fourth attempt is made on the origin
  queue, and nothing reaches the dead-letter queue.
\<close>

theorem retry_bound_counterexample:
  "length (processed (runConsumer NotificationConsumer [False, False, False, True]
                        (publishTask NotificationConsumer task_body emptyBroker))) = 4
   \<and> queues (runConsumer NotificationConsumer [False, False, False, True]
               (publishTask NotificationConsumer task_body emptyBroker))
        (deadLetterQueue NotificationConsumer) = []"
proof -
  have "runConsumer NotificationConsumer [False, False, False, True]
          (publishTask NotificationConsumer task_body emptyBroker)
        = runConsumer NotificationConsumer [True]
            (runConsumer NotificationConsumer [False, False, False]
               (publishTask NotificationConsumer task_body emptyBroker))"
    using runConsumer_append [of NotificationConsumer "[False, False, False]" "[True]"] by simp
  then show ?thesis
    unfolding three_failures
    by (simp add: consumeNext_def onMessage_def fireTimers_def)
qed

text \<open>
  C3, as the consumers implement it (three retries after the first attempt). For either
  consumer and any payload: after three failed attempts the message is back on the origin
  queue with \<open>x-retry-count = 3\<close> and the dead-letter queue is empty; when the fourth
  attempt fails too, the payload is on the paired dead-letter queue exactly once and
  unchanged, the origin queue and the timers are empty, and whatever outcomes follow,
  the message was attempted four times in all, with retry counts 0, 1, 2, 3.
\<close>

theorem retry_then_dead_letter:
  "(let b3 = runConsumer k [False, False, False] (publishTask k body emptyBroker)
    in queues b3 (queue k)
         = [\<lparr>payload = body,
              properties = \<lparr>headers = Some [(''x-retry-count'', 3)], persistent = True\<rparr>\<rparr>]
       \<and> queues b3 (deadLetterQueue k) = []
       \<and> length (processed b3) = 3)
   \<and> (let b = runConsumer k (False # False # False # False # oks) (publishTask k body emptyBroker)
      in queues b (deadLetterQueue k)
           = [\<lparr>payload = body, properties = \<lparr>headers = None, persistent = True\<rparr>\<rparr>]
         \<and> queues b (queue k) = []
         \<and> timers b = []
         \<and> map fst (processed b) = replicate 4 (queue k)
         \<and> map (\<lambda>d. payload (snd d)) (processed b) = replicate 4 body
         \<and> map (\<lambda>d. retryCountOf (snd d)) (processed b) = [0, 1, 2, 3])"
proof -
  let ?b4 = "runConsumer k [False] (runConsumer k [False, False, False] (publishTask k body emptyBroker))"
  have "runConsumer k (False # False # False # False # oks) (publishTask k body emptyBroker)
          = runConsumer k oks ?b4"
    using runConsumer_append [of k "[False, False, False, False]" oks]
          runConsumer_append [of k "[False, False, False]" "[False]"]
    by simp
  also have "\<dots> = ?b4"
  proof (rule runConsumer_idle)
    show "queues ?b4 (queue k) = []"
      unfolding fourth_failure by (simp add: queue_neq_dlq)
    show "timers ?b4 = []"
      unfolding fourth_failure by simp
  qed
  finally have e: "runConsumer k (False # False # False # False # oks) (publishTask k body emptyBroker)
                     = ?b4" .
  show ?thesis
    unfolding e Let_def fourth_failure
    unfolding three_failures
    by (simp add: queue_neq_dlq retryCountOf_def numeral_eq_Suc)
qed

section \<open>Symmetry of the eligibility check\<close>

lemma own_favorites:
  "set (map fav_albumId (filter (\<lambda>f. fav_userId f = u) (favorites c))) = favoriteAlbumIds c u"
  by (auto simp: favoriteAlbumIds_def)

lemma mutual_ids:
  "set (map fav_albumId
         (filter (\<lambda>f. fav_userId f = u2 \<and> fav_albumId f \<in> favoriteAlbumIds c u1) (favorites c)))
     = favoriteAlbumIds c u1 \<inter> favoriteAlbumIds c u2"
proof -
  have "set (map fav_albumId (filter (\<lambda>f. fav_userId f = u2 \<and> fav_albumId f \<in> S) (favorites c)))
          = S \<inter> favoriteAlbumIds c u2" for S
    by (auto simp: favoriteAlbumIds_def)
  then show ?thesis .
qed


lemma no_own_favorites:
  "(filter (\<lambda>f. fav_userId f = u) (favorites c) = []) = (favoriteAlbumIds c u = {})"
  by (auto simp: favoriteAlbumIds_def filter_empty_conv)

lemma no_mutual_ids:
  "(filter (\<lambda>f. fav_userId f = u2 \<and> fav_albumId f \<in> favoriteAlbumIds c u1) (favorites c) = [])
     = (favoriteAlbumIds c u1 \<inter> favoriteAlbumIds c u2 = {})"
proof -
  have "(filter (\<lambda>f. fav_userId f = u2 \<and> fav_albumId f \<in> favoriteAlbumIds c u1) (favorites c) = [])
        = (set (map fav_albumId
         (filter (\<lambda>f. fav_userId f = u2 \<and> fav_albumId f \<in> favoriteAlbumIds c u1) (favorites c))) = {})"
    by (simp del: set_map set_filter)
  then show ?thesis by (simp only: mutual_ids)
qed


lemma eligibility_verdict:
  assumes "ObjectId_isValid a" and "ObjectId_isValid b" and "a \<noteq> b"
  shows "map_sum id verdict (checkConnectionEligibility c a b) =
     Inr (let I = favoriteAlbumIds c (newObjectId a) \<inter> favoriteAlbumIds c (newObjectId b);
              mutual = filter (\<lambda>al. album_id al \<in> I \<and> \<not> album_isDeleted al) (albums c);
              r1 = getMediaReflectionsByUser c a b;
              r2 = getMediaReflectionsByUser c b a
          in if I = {} then (False, 0, {#})
             else if filter (\<lambda>al. album_userId al = a) mutual = []
                     \<or> filter (\<lambda>al. album_userId al = b) mutual = []
             then (False, 0, mset (map albumSummary mutual))
             else (r1 \<noteq> [] \<and> r2 \<noteq> [], length r1 + length r2, mset (map albumSummary mutual)))"
proof (cases "favoriteAlbumIds c (newObjectId a) \<inter> favoriteAlbumIds c (newObjectId b) = {}")
  case True
  then show ?thesis
    using assms
    by (simp add: checkConnectionEligibility_def Let_def verdict_def own_favorites mutual_ids
        no_own_favorites no_mutual_ids del: set_map set_filter)
next
  case False
  then have "favoriteAlbumIds c (newObjectId a) \<noteq> {}" by blast
  with False show ?thesis
    using assms
    by (simp add: checkConnectionEligibility_def Let_def verdict_def own_favorites mutual_ids
        no_own_favorites no_mutual_ids del: set_map set_filter)
qed

lemma eligibility_invalid:
  "\<not> ObjectId_isValid a \<or> \<not> ObjectId_isValid b \<Longrightarrow>
     checkConnectionEligibility c a b = Inl (BadRequestException ''Invalid userId'')"
  by (simp add: checkConnectionEligibility_def)

lemma verdict_swap:
  "(if E then x else if A \<or> B then y else (p \<and> q, (m::nat) + n, z))
     = (if E then x else if B \<or> A then y else (q \<and> p, n + m, z))"
  by auto

lemma verdict_symmetric:
  "map_sum id verdict (checkConnectionEligibility c a b)
     = map_sum id verdict (checkConnectionEligibility c b a)"
proof -
  consider "a = b" | "\<not> ObjectId_isValid a \<or> \<not> ObjectId_isValid b"
    | "ObjectId_isValid a" "ObjectId_isValid b" "a \<noteq> b"
    by blast
  then show ?thesis
  proof cases
    case 1
    then show ?thesis by simp
  next
    case 2
    then have "\<not> ObjectId_isValid b \<or> \<not> ObjectId_isValid a" by blast
    with 2 show ?thesis by (simp only: eligibility_invalid)
  next
    case 3
    then have ba: "b \<noteq> a" by blast
    have I: "favoriteAlbumIds c (newObjectId b) \<inter> favoriteAlbumIds c (newObjectId a)
              = favoriteAlbumIds c (newObjectId a) \<inter> favoriteAlbumIds c (newObjectId b)"
      by blast
    note L = eligibility_verdict [OF 3, of c, unfolded Let_def]
    note R = eligibility_verdict [OF 3(2,1) ba, of c, unfolded Let_def I]
    show ?thesis
      unfolding L R by (rule arg_cong [where f = Inr]) (rule verdict_swap)
  qed
qed


lemma eligible_walked_together:
  "checkConnectionEligibility walked_together alice bob =
     Inr \<lparr>eligible = True, mutualAlbums = map albumSummary (albums walked_together),
          reflectionCount = 2, reasons = []\<rparr>"
  by (simp add: checkConnectionEligibility_def getMediaReflectionsByUser_def walked_together_def
      valid_alice valid_bob canon_alice canon_bob alice_neq_bob Let_def)

text \<open>
  C7. For all users \<open>a\<close> and \<open>b\<close>, \<open>checkConnectionEligibility\<close> called with \<open>(a, b)\<close> and
  with \<open>(b, a)\<close> either throws the same exception in both cases or returns results with
  the same \<open>eligible\<close> flag, the same \<open>reflectionCount\<close> and the same \<open>mutualAlbums\<close> up to
  order.
\<close>

theorem eligibility_symmetric:
  "map_sum id verdict (checkConnectionEligibility c a b)
     = map_sum id verdict (checkConnectionEligibility c b a)"
  by (rule verdict_symmetric)

theorem eligibility_symmetric_witness:
  "map_sum id verdict (checkConnectionEligibility walked_together alice bob)
     = Inr (True, 2, mset (map albumSummary (albums walked_together)))
   \<and> map_sum id verdict (checkConnectionEligibility walked_together bob alice)
     = Inr (True, 2, mset (map albumSummary (albums walked_together)))"
  using eligibility_symmetric [of walked_together alice bob]
  by (simp add: eligible_walked_together verdict_def)

section \<open>The reflections one user gave on another user's media\<close>

lemma getMediaReflectionsByUser_filter:
  assumes "ObjectId_isValid a" and "ObjectId_isValid b"
  shows "getMediaReflectionsByUser c a b =
           filter (\<lambda>r. mr_userId r = newObjectId a
                      \<and> (\<exists>m\<in>set (media c). mr_mediaId r = media_id m \<and> \<not> media_isDeleted m
                            \<and> (\<exists>al\<in>set (albums c). media_albumId m = album_id al
                                  \<and> album_userId al = newObjectId b)))
             (mediaReflections c)"
proof -
  let ?albums = "filter (\<lambda>al. album_userId al = newObjectId b) (albums c)"
  let ?media = "filter (\<lambda>m. media_albumId m \<in> set (map album_id ?albums) \<and> \<not> media_isDeleted m)
                  (media c)"
  let ?P = "\<lambda>r. mr_userId r = newObjectId a \<and> mr_mediaId r \<in> set (map media_id ?media)"
  let ?Q = "\<lambda>r. mr_userId r = newObjectId a
                      \<and> (\<exists>m\<in>set (media c). mr_mediaId r = media_id m \<and> \<not> media_isDeleted m
                            \<and> (\<exists>al\<in>set (albums c). media_albumId m = album_id al
                                  \<and> album_userId al = newObjectId b))"
  have PQ: "?P = ?Q"
  proof (rule ext)
    fix r
    have "mr_mediaId r \<in> set (map media_id ?media)
            \<longleftrightarrow> (\<exists>m\<in>set (media c). mr_mediaId r = media_id m \<and> \<not> media_isDeleted m
                            \<and> (\<exists>al\<in>set (albums c). media_albumId m = album_id al
                                  \<and> album_userId al = newObjectId b))"
      by (auto simp: image_iff)
    then show "?P r = ?Q r" by simp
  qed
  have "getMediaReflectionsByUser c a b = filter ?P (mediaReflections c)"
  proof (cases "?albums = []")
    case True
    then show ?thesis using assms by (simp add: getMediaReflectionsByUser_def)
  next
    case False
    show ?thesis
    proof (cases "?media = []")
      case True
      then show ?thesis using assms by (simp add: getMediaReflectionsByUser_def Let_def)
    next
      case False
      with \<open>?albums \<noteq> []\<close> show ?thesis using assms
        by (simp add: getMediaReflectionsByUser_def Let_def)
    qed
  qed
  then show ?thesis by (simp only: PQ)
qed

lemma getMediaReflectionsByUser_frame:
  "getMediaReflectionsByUser (c\<lparr>reflections := rs\<rparr>) a b = getMediaReflectionsByUser c a b"
  by (simp add: getMediaReflectionsByUser_def Let_def)

lemma checkConnectionEligibility_frame:
  "checkConnectionEligibility (c\<lparr>reflections := rs\<rparr>) a b = checkConnectionEligibility c a b"
  by (simp add: checkConnectionEligibility_def getMediaReflectionsByUser_frame Let_def)

lemma eligibility_reflections:
  assumes "checkConnectionEligibility c a b = Inr e"
  shows "(eligible e \<longrightarrow>
            getMediaReflectionsByUser c a b \<noteq> [] \<and> getMediaReflectionsByUser c b a \<noteq> [])
       \<and> (reasons e = [''No bidirectional reflections found (both users must reflect on each other's media)'']
            \<longrightarrow> getMediaReflectionsByUser c a b = [] \<or> getMediaReflectionsByUser c b a = [])
       \<and> (eligible e \<or> reasons e = [''No bidirectional reflections found (both users must reflect on each other's media)'']
            \<longrightarrow> reflectionCount e = length (getMediaReflectionsByUser c a b)
                                    + length (getMediaReflectionsByUser c b a))"
  using assms
  by (auto simp: checkConnectionEligibility_def Let_def split: if_splits)

text \<open>
  Against C4 as stated, in two states that \<open>checkConnectionEligibility\<close> takes as far as its
  reflection step. In the first, Alice's one reflection is on a photo of an album Bob has
  deleted: the computed set holds it and the users are eligible, although Alice has no
  reflection on media of a non-deleted album of Bob. In the second, Alice's reflection on
  Bob's photo is an anonymous \<open>Reflection\<close> record: the computed set is empty and the users
  are not eligible for want of bidirectional reflections.
\<close>

theorem reflection_set_counterexample:
  "map_sum id (\<lambda>e. (eligible e, reflectionCount e, reasons e))
       (checkConnectionEligibility reflection_on_deleted_album alice bob) = Inr (True, 2, [])
   \<and> getMediaReflectionsByUser reflection_on_deleted_album alice bob
       = [hd (mediaReflections reflection_on_deleted_album)]
   \<and> mr_mediaId (hd (mediaReflections reflection_on_deleted_album)) = ''ffffffffffffffffffffff03''
   \<and> specReflections reflection_on_deleted_album (newObjectId alice) (newObjectId bob) = []
   \<and> map_sum id (\<lambda>e. (eligible e, reflectionCount e, reasons e))
       (checkConnectionEligibility anonymous_reflection_only alice bob)
       = Inr (False, 1,
           [''No bidirectional reflections found (both users must reflect on each other's media)''])
   \<and> getMediaReflectionsByUser anonymous_reflection_only alice bob = []
   \<and> anonymousReflections anonymous_reflection_only (newObjectId alice) (newObjectId bob)
       = [anonymous_reflection]"
proof -
  have 1: "map_sum id (\<lambda>e. (eligible e, reflectionCount e, reasons e))
       (checkConnectionEligibility reflection_on_deleted_album alice bob) = Inr (True, 2, [])"
    by (simp add: checkConnectionEligibility_def getMediaReflectionsByUser_def
        reflection_on_deleted_album_def walked_together_def
        valid_alice valid_bob canon_alice canon_bob alice_neq_bob Let_def)
  have 2: "getMediaReflectionsByUser reflection_on_deleted_album alice bob
       = [hd (mediaReflections reflection_on_deleted_album)]
   \<and> mr_mediaId (hd (mediaReflections reflection_on_deleted_album)) = ''ffffffffffffffffffffff03''
   \<and> specReflections reflection_on_deleted_album (newObjectId alice) (newObjectId bob) = []"
    by (simp add: getMediaReflectionsByUser_def specReflections_def specMedia_def
        reflection_on_deleted_album_def walked_together_def
        valid_alice valid_bob canon_alice canon_bob alice_neq_bob Let_def)
  have 3: "map_sum id (\<lambda>e. (eligible e, reflectionCount e, reasons e))
       (checkConnectionEligibility anonymous_reflection_only alice bob)
       = Inr (False, 1,
           [''No bidirectional reflections found (both users must reflect on each other's media)''])
   \<and> getMediaReflectionsByUser anonymous_reflection_only alice bob = []
   \<and> anonymousReflections anonymous_reflection_only (newObjectId alice) (newObjectId bob)
       = [anonymous_reflection]"
    by (simp add: checkConnectionEligibility_def getMediaReflectionsByUser_def
        anonymousReflections_def specMedia_def anonymous_reflection_def
        anonymous_reflection_only_def walked_together_def
        valid_alice valid_bob canon_alice canon_bob alice_neq_bob Let_def)
  from 1 2 3 show ?thesis by (simp only: simp_thms)
qed

text \<open>
  C4, as the code computes it. For well-formed ids, the set \<open>getMediaReflectionsByUser c a b\<close>
  is exactly the stored \<open>MediaReflection\<close> records authored by \<open>a\<close> on non-deleted media
  belonging to any album owned by \<open>b\<close>, deleted or not, in collection order. It is the
  set inside \<open>checkConnectionEligibility\<close>: a result is eligible only when the sets of both
  directions are non-empty, the reason "No bidirectional reflections found" is given only
  when one is empty, and in both cases \<open>reflectionCount\<close> is the sum of their sizes. The
  \<open>Reflection\<close> records, which alone carry the anonymity flag, are not read: the set and the
  whole result are the same whatever that collection holds, so a record of it adds
  nothing to the set, anonymous or not, and anonymity never affects eligibility.
\<close>

theorem reflections_by_user_exact:
  assumes "ObjectId_isValid a" and "ObjectId_isValid b"
  shows "getMediaReflectionsByUser c a b =
           filter (\<lambda>r. mr_userId r = newObjectId a
                      \<and> (\<exists>m\<in>set (media c). mr_mediaId r = media_id m \<and> \<not> media_isDeleted m
                            \<and> (\<exists>al\<in>set (albums c). media_albumId m = album_id al
                                  \<and> album_userId al = newObjectId b)))
             (mediaReflections c)
       \<and> (\<forall>e. checkConnectionEligibility c a b = Inr e \<longrightarrow>
             (eligible e \<longrightarrow>
                getMediaReflectionsByUser c a b \<noteq> [] \<and> getMediaReflectionsByUser c b a \<noteq> [])
           \<and> (reasons e = [''No bidirectional reflections found (both users must reflect on each other's media)'']
                \<longrightarrow> getMediaReflectionsByUser c a b = [] \<or> getMediaReflectionsByUser c b a = [])
           \<and> (eligible e \<or> reasons e = [''No bidirectional reflections found (both users must reflect on each other's media)'']
                \<longrightarrow> reflectionCount e = length (getMediaReflectionsByUser c a b)
                                        + length (getMediaReflectionsByUser c b a)))
       \<and> getMediaReflectionsByUser (c\<lparr>reflections := rs\<rparr>) a b = getMediaReflectionsByUser c a b
       \<and> checkConnectionEligibility (c\<lparr>reflections := rs\<rparr>) a b
           = checkConnectionEligibility c a b"
proof (intro conjI allI impI)
  show "getMediaReflectionsByUser c a b =
           filter (\<lambda>r. mr_userId r = newObjectId a
                      \<and> (\<exists>m\<in>set (media c). mr_mediaId r = media_id m \<and> \<not> media_isDeleted m
                            \<and> (\<exists>al\<in>set (albums c). media_albumId m = album_id al
                                  \<and> album_userId al = newObjectId b)))
             (mediaReflections c)"
    by (rule getMediaReflectionsByUser_filter [OF assms])
next
  fix e assume e: "checkConnectionEligibility c a b = Inr e"
  note r = eligibility_reflections [OF e]
  { assume "eligible e"
    with r show "getMediaReflectionsByUser c a b \<noteq> []" by blast
    from \<open>eligible e\<close> r show "getMediaReflectionsByUser c b a \<noteq> []" by blast }
  { assume "reasons e = [''No bidirectional reflections found (both users must reflect on each other's media)'']"
    with r show "getMediaReflectionsByUser c a b = [] \<or> getMediaReflectionsByUser c b a = []"
      by blast }
  { assume "eligible e \<or> reasons e = [''No bidirectional reflections found (both users must reflect on each other's media)'']"
    with r show "reflectionCount e = length (getMediaReflectionsByUser c a b)
                                        + length (getMediaReflectionsByUser c b a)"
      by blast }
next
  show "getMediaReflectionsByUser (c\<lparr>reflections := rs\<rparr>) a b = getMediaReflectionsByUser c a b"
    by (rule getMediaReflectionsByUser_frame)
next
  show "checkConnectionEligibility (c\<lparr>reflections := rs\<rparr>) a b
           = checkConnectionEligibility c a b"
    by (rule checkConnectionEligibility_frame)
qed

theorem reflections_by_user_exact_witness:
  "ObjectId_isValid alice \<and> ObjectId_isValid bob
   \<and> anonymousReflections (walked_together\<lparr>reflections := [anonymous_reflection]\<rparr>)
         (newObjectId alice) (newObjectId bob) = [anonymous_reflection]
   \<and> getMediaReflectionsByUser (walked_together\<lparr>reflections := [anonymous_reflection]\<rparr>)
         alice bob = [hd (mediaReflections walked_together)]
   \<and> getMediaReflectionsByUser walked_together bob alice \<noteq> []
   \<and> checkConnectionEligibility (walked_together\<lparr>reflections := [anonymous_reflection]\<rparr>)
         alice bob
       = Inr \<lparr>eligible = True, mutualAlbums = map albumSummary (albums walked_together),
              reflectionCount = 2, reasons = []\<rparr>"
proof -
  note t = reflections_by_user_exact [OF valid_alice valid_bob, of walked_together
             "[anonymous_reflection]"]
  have a: "anonymousReflections (walked_together\<lparr>reflections := [anonymous_reflection]\<rparr>)
         (newObjectId alice) (newObjectId bob) = [anonymous_reflection]"
    by (simp add: anonymousReflections_def specMedia_def anonymous_reflection_def
        walked_together_def canon_alice canon_bob alice_neq_bob)
  from t have "getMediaReflectionsByUser walked_together alice bob =
           filter (\<lambda>r. mr_userId r = newObjectId alice
                      \<and> (\<exists>m\<in>set (media walked_together). mr_mediaId r = media_id m
                            \<and> \<not> media_isDeleted m
                            \<and> (\<exists>al\<in>set (albums walked_together). media_albumId m = album_id al
                                  \<and> album_userId al = newObjectId bob)))
             (mediaReflections walked_together)"
    by (rule conjunct1)
  also have "\<dots> = [hd (mediaReflections walked_together)]"
    by (simp add: walked_together_def canon_alice canon_bob alice_neq_bob)
  finally have g: "getMediaReflectionsByUser walked_together alice bob
                     = [hd (mediaReflections walked_together)]" .
  from t have f1: "getMediaReflectionsByUser (walked_together\<lparr>reflections := [anonymous_reflection]\<rparr>)
         alice bob = getMediaReflectionsByUser walked_together alice bob"
    by blast
  from t have f2: "checkConnectionEligibility (walked_together\<lparr>reflections := [anonymous_reflection]\<rparr>)
         alice bob = checkConnectionEligibility walked_together alice bob"
    by blast
  from t eligible_walked_together
  have n: "getMediaReflectionsByUser walked_together bob alice \<noteq> []"
    by simp
  show ?thesis
    using valid_alice valid_bob a n
    by (simp only: f1 f2 g eligible_walked_together simp_thms)
qed

section \<open>Trail connections: one normalised document per pair\<close>

lemma str_less_irrefl: "\<not> str_less s s"
  by (induction s) simp_all

lemma str_less_asym: "str_less s t \<Longrightarrow> \<not> str_less t s"
  by (induction s t rule: str_less.induct) auto

lemma str_less_total: "s \<noteq> t \<Longrightarrow> str_less s t \<or> str_less t s"
proof (induction s t rule: str_less.induct)
  case (4 x xs y ys)
  show ?case
  proof (cases "x = y")
    case True
    with 4 show ?thesis by auto
  next
    case False
    then have "(of_char x :: nat) \<noteq> of_char y" by simp
    then have "(of_char x :: nat) < of_char y \<or> (of_char y :: nat) < of_char x" by linarith
    then show ?thesis by auto
  qed
qed simp_all

lemma normalizeUserIds_swap:
  "newObjectId a \<noteq> newObjectId b \<Longrightarrow> normalizeUserIds a b = normalizeUserIds b a"
  using str_less_asym [of "newObjectId a" "newObjectId b"]
        str_less_total [of "newObjectId a" "newObjectId b"]
  by (auto simp: normalizeUserIds_def Let_def)

lemma normalizeUserIds_less:
  "newObjectId a \<noteq> newObjectId b \<Longrightarrow>
     str_less (fst (normalizeUserIds a b)) (snd (normalizeUserIds a b))"
  using str_less_total [of "newObjectId a" "newObjectId b"]
  by (auto simp: normalizeUserIds_def Let_def)

lemma normalizeUserIds_set:
  "{fst (normalizeUserIds a b), snd (normalizeUserIds a b)} = {newObjectId a, newObjectId b}"
  by (auto simp: normalizeUserIds_def Let_def)


lemma preSave_normalized: "str_less (userA d) (userB d) \<Longrightarrow> preSave d = d"
  by (simp add: preSave_def str_less_asym)

lemma findOneConnection_None:
  "findOneConnection db p q = None \<longleftrightarrow> \<not> list_ex (\<lambda>x. userA x = p \<and> userB x = q) db"
  by (auto simp: findOneConnection_def find_None_iff list_ex_iff)

lemma createTrailConnection_new:
  assumes "str_less (userA d) (userB d)" and "findOneConnection db (userA d) (userB d) = None"
  shows "createTrailConnection db d = Inr (db @ [d])"
  using assms by (simp add: createTrailConnection_def preSave_normalized findOneConnection_None)

lemma updateOneById_keys:
  assumes "\<And>x. tc_id (upd x) = tc_id x \<and> userA (upd x) = userA x \<and> userB (upd x) = userB x"
  shows "map (\<lambda>x. (tc_id x, userA x, userB x)) (updateOneById db i upd)
           = map (\<lambda>x. (tc_id x, userA x, userB x)) db"
  using assms by (induction db) auto

lemma normalizedStore_keys:
  assumes "map (\<lambda>x. (tc_id x, userA x, userB x)) db' = map (\<lambda>x. (tc_id x, userA x, userB x)) db"
  shows "normalizedStore db' = normalizedStore db"
proof -
  have 1: "map tc_id db' = map tc_id db"
    using arg_cong [OF assms, of "map fst"] by (simp add: comp_def)
  have 2: "map (\<lambda>x. (userA x, userB x)) db' = map (\<lambda>x. (userA x, userB x)) db"
    using arg_cong [OF assms, of "map snd"] by (simp add: comp_def)
  have "list_all (\<lambda>x. str_less (userA x) (userB x)) db
          = list_all (\<lambda>p. str_less (fst p) (snd p)) (map (\<lambda>x. (userA x, userB x)) db)" for db
    by (simp add: list_all_iff)
  from this [of db'] this [of db] 2
  have "list_all (\<lambda>x. str_less (userA x) (userB x)) db'
          = list_all (\<lambda>x. str_less (userA x) (userB x)) db"
    by simp
  then show ?thesis
    unfolding normalizedStore_def using 1 2 by simp
qed

lemma pairRows_keys:
  assumes "map (\<lambda>x. (tc_id x, userA x, userB x)) db' = map (\<lambda>x. (tc_id x, userA x, userB x)) db"
  shows "map tc_id (pairRows db' p q) = map tc_id (pairRows db p q)"
proof -
  have "map tc_id (pairRows db p q)
          = map fst (filter (\<lambda>k. (fst (snd k) = p \<and> snd (snd k) = q) \<or> (fst (snd k) = q \<and> snd (snd k) = p))
                       (map (\<lambda>x. (tc_id x, userA x, userB x)) db))" for db
    by (simp add: pairRows_def filter_map comp_def)
  then show ?thesis using assms by simp
qed


lemma find_append_list:
  "List.find P (xs @ ys) = (case List.find P xs of None \<Rightarrow> List.find P ys | Some x \<Rightarrow> Some x)"
  by (induction xs) auto

lemma find_updateOneById:
  assumes "distinct (map tc_id db)" and "List.find P db = Some ex" and "\<And>x. P (upd x) = P x"
  shows "List.find P (updateOneById db (tc_id ex) upd) = Some (upd ex)"
  using assms(1,2)
proof (induction db)
  case Nil
  then show ?case by simp
next
  case (Cons x xs)
  show ?case
  proof (cases "P x")
    case True
    with Cons.prems have "ex = x" by simp
    with True show ?thesis by (simp add: assms(3))
  next
    case False
    with Cons.prems have f: "List.find P xs = Some ex" by simp
    then have "ex \<in> set xs" by (auto simp: find_Some_iff)
    with Cons.prems(1) have "tc_id x \<noteq> tc_id ex" by auto
    with False f Cons show ?thesis by simp
  qed
qed

lemma filter_key_single:
  assumes "distinct (map f xs)" and "x \<in> set xs"
  shows "filter (\<lambda>y. f y = f x) xs = [x]"
  using assms
proof (induction xs)
  case Nil
  then show ?case by simp
next
  case (Cons y ys)
  show ?case
  proof (cases "y = x")
    case True
    with Cons.prems have "f x \<notin> f ` set ys" by simp
    then have "\<forall>z\<in>set ys. f z \<noteq> f x" by (metis imageI)
    then have "filter (\<lambda>y. f y = f x) ys = []" by (simp add: filter_empty_conv)
    with True show ?thesis by simp
  next
    case False
    with Cons.prems have "x \<in> set ys" by simp
    with Cons.prems have "f y \<noteq> f x" by (metis distinct.simps(2) imageI list.simps(9) set_map)
    with Cons \<open>x \<in> set ys\<close> show ?thesis by simp
  qed
qed

lemma pairRows_single:
  assumes n: "normalizedStore db" and f: "findOneConnection db p q = Some d" and l: "str_less p q"
  shows "pairRows db p q = [d]"
proof -
  from f have d: "d \<in> set db" "userA d = p" "userB d = q"
    by (auto simp: findOneConnection_def find_Some_iff)
  have "\<not> (userA x = q \<and> userB x = p)" if "x \<in> set db" for x
  proof
    assume "userA x = q \<and> userB x = p"
    moreover from n that have "str_less (userA x) (userB x)"
      by (simp add: normalizedStore_def list_all_iff)
    ultimately show False using l str_less_asym by auto
  qed
  then have "pairRows db p q = filter (\<lambda>x. (userA x, userB x) = (userA d, userB d)) db"
    unfolding pairRows_def using d by (intro filter_cong) auto
  also have "\<dots> = [d]"
    using n d(1) by (intro filter_key_single) (simp add: normalizedStore_def)
  finally show ?thesis .
qed

lemma pairRows_normalize:
  "pairRows db (fst (normalizeUserIds a b)) (snd (normalizeUserIds a b))
     = pairRows db (newObjectId a) (newObjectId b)"
  by (auto simp: normalizeUserIds_def Let_def pairRows_def intro: filter_cong)

lemma createConnection_Inr:
  assumes "createConnection c db newId a b = (Inr r, db')"
  shows "ObjectId_isValid a \<and> ObjectId_isValid b \<and> a \<noteq> b
         \<and> (\<exists>e. checkConnectionEligibility c a b = Inr e \<and> eligible e)"
  using assms by (auto simp: createConnection_def split: if_splits sum.splits)


lemma pairRows_empty:
  assumes n: "normalizedStore db" and f: "findOneConnection db p q = None" and l: "str_less p q"
  shows "pairRows db p q = []"
proof -
  have "\<not> ((userA x = p \<and> userB x = q) \<or> (userA x = q \<and> userB x = p))" if x: "x \<in> set db" for x
  proof
    assume h: "(userA x = p \<and> userB x = q) \<or> (userA x = q \<and> userB x = p)"
    from n x have s: "str_less (userA x) (userB x)"
      by (simp add: normalizedStore_def list_all_iff)
    from f x have "\<not> (userA x = p \<and> userB x = q)"
      by (auto simp: findOneConnection_def find_None_iff)
    with h have "userA x = q \<and> userB x = p" by blast
    with s l show False using str_less_asym by auto
  qed
  then show ?thesis by (simp add: pairRows_def filter_empty_conv)
qed

lemma createConnection_outcome:
  assumes inv: "normalizedStore db" and fresh: "newId \<notin> set (map tc_id db)"
    and ne: "newObjectId a \<noteq> newObjectId b"
    and ok: "createConnection c db newId a b = (Inr r, db')"
  shows "normalizedStore db'
       \<and> (\<exists>d. findOneConnection db' (fst (normalizeUserIds a b)) (snd (normalizeUserIds a b)) = Some d
              \<and> isActive d)
       \<and> (pairRows db (newObjectId a) (newObjectId b) \<noteq> [] \<longrightarrow>
            map tc_id (pairRows db' (newObjectId a) (newObjectId b))
              = map tc_id (pairRows db (newObjectId a) (newObjectId b)))"
proof -
  let ?p = "fst (normalizeUserIds a b)" and ?q = "snd (normalizeUserIds a b)"
  from createConnection_Inr [OF ok] obtain e where
    v: "ObjectId_isValid a" "ObjectId_isValid b" "a \<noteq> b" and
    e: "checkConnectionEligibility c a b = Inr e" "eligible e"
    by blast
  have l: "str_less ?p ?q" using ne by (rule normalizeUserIds_less)
  let ?upd = "\<lambda>x. x\<lparr>isActive := True, mutualAlbumIds := map as_id (mutualAlbums e),
                       tc_reflectionCount := reflectionCount e\<rparr>"
  let ?nd = "\<lparr>tc_id = newId, userA = ?p, userB = ?q,
              mutualAlbumIds = map as_id (mutualAlbums e),
              tc_reflectionCount = reflectionCount e, isActive = True\<rparr>"
  show ?thesis
  proof (cases "findOneConnection db ?p ?q")
    case None
    have c: "createTrailConnection db ?nd = Inr (db @ [?nd])"
      using l None by (intro createTrailConnection_new) simp_all
    have db': "db' = db @ [?nd]"
      using ok v e None c by (simp add: createConnection_def Let_def)
    have nopair: "(?p, ?q) \<notin> set (map (\<lambda>x. (userA x, userB x)) db)"
      using None by (auto simp: findOneConnection_def find_None_iff)
    have 1: "normalizedStore db'"
      using inv fresh l nopair unfolding db' normalizedStore_def by simp
    have 2: "findOneConnection db' ?p ?q = Some ?nd"
      using None unfolding db' findOneConnection_def by (simp add: find_append_list)
    have 3: "pairRows db (newObjectId a) (newObjectId b) = []"
      using pairRows_empty [OF inv None l] by (simp add: pairRows_normalize)
    show ?thesis using 1 2 3 by simp
  next
    case (Some ex)
    show ?thesis
    proof (cases "isActive ex")
      case True
      then have "db' = db"
        using ok v e Some by (simp add: createConnection_def Let_def)
      then show ?thesis using inv Some True by simp
    next
      case False
      then have db': "db' = updateOneById db (tc_id ex) ?upd"
        using ok v e Some by (simp add: createConnection_def Let_def)
      have k: "map (\<lambda>x. (tc_id x, userA x, userB x)) db' = map (\<lambda>x. (tc_id x, userA x, userB x)) db"
        unfolding db' by (rule updateOneById_keys) simp
      have 1: "normalizedStore db'"
        using normalizedStore_keys [OF k] inv by simp
      have "List.find (\<lambda>x. userA x = ?p \<and> userB x = ?q) (updateOneById db (tc_id ex) ?upd)
              = Some (?upd ex)"
        using inv Some
        by (intro find_updateOneById) (simp_all add: normalizedStore_def findOneConnection_def)
      then have 2: "findOneConnection db' ?p ?q = Some (?upd ex)"
        unfolding db' findOneConnection_def .
      have 3: "map tc_id (pairRows db' (newObjectId a) (newObjectId b))
              = map tc_id (pairRows db (newObjectId a) (newObjectId b))"
        using k by (rule pairRows_keys)
      show ?thesis using 1 2 3 by simp
    qed
  qed
qed

lemma updateConnectionEligibility_keys:
  "map (\<lambda>x. (tc_id x, userA x, userB x)) (snd (updateConnectionEligibility c db a b))
     = map (\<lambda>x. (tc_id x, userA x, userB x)) db"
  by (simp add: updateConnectionEligibility_def Let_def updateOneById_keys
      split: option.splits sum.splits)


lemma eligible_swap:
  assumes "checkConnectionEligibility c a b = Inr e"
  shows "\<exists>e'. checkConnectionEligibility c b a = Inr e' \<and> eligible e' = eligible e"
proof (cases "checkConnectionEligibility c b a")
  case (Inl x)
  with assms verdict_symmetric [of c a b] show ?thesis by simp
next
  case (Inr e')
  with assms verdict_symmetric [of c a b] have "verdict e' = verdict e" by simp
  with Inr show ?thesis by (simp add: verdict_def)
qed

lemma createConnection_again:
  assumes v: "ObjectId_isValid a" "ObjectId_isValid b" "a \<noteq> b"
    and e: "checkConnectionEligibility c a b = Inr e" "eligible e"
    and f: "findOneConnection db (fst (normalizeUserIds a b)) (snd (normalizeUserIds a b)) = Some d"
           "isActive d"
  shows "createConnection c db newId a b =
           (Inr \<lparr>connected = True, cr_message = ''Already connected'', connectionId = None\<rparr>, db)"
  using assms by (simp add: createConnection_def Let_def)

text \<open>
  C5. For two different users \<open>a\<close> and \<open>b\<close>, \<open>normalizeUserIds\<close> gives the same pair for
  \<open>(a, b)\<close> and \<open>(b, a)\<close>, with the first id below the second in string order. On a
  collection whose documents are normalised and unique per pair, a successful
  \<open>createConnection\<close> keeps it so and leaves exactly one document for the unordered
  pair, with \<open>(userA, userB)\<close> the normalised pair, \<open>userA < userB\<close>, and active; if the pair
  had a document before, it is that same document. Creating again, in either direction,
  answers "Already connected" and changes nothing, and \<open>updateConnectionEligibility\<close>, in
  either direction, keeps the pair's single document.
\<close>

theorem trail_connection_normalized:
  assumes ne: "newObjectId a \<noteq> newObjectId b"
  shows "normalizeUserIds a b = normalizeUserIds b a
       \<and> str_less (fst (normalizeUserIds a b)) (snd (normalizeUserIds a b))
       \<and> (normalizedStore db \<and> newId \<notin> set (map tc_id db)
            \<and> createConnection c db newId a b = (Inr r, db') \<longrightarrow>
            normalizedStore db'
          \<and> (\<exists>d. pairRows db' (newObjectId a) (newObjectId b) = [d]
                 \<and> (userA d, userB d) = normalizeUserIds a b
                 \<and> str_less (userA d) (userB d) \<and> isActive d)
          \<and> (pairRows db (newObjectId a) (newObjectId b) \<noteq> [] \<longrightarrow>
                map tc_id (pairRows db' (newObjectId a) (newObjectId b))
                  = map tc_id (pairRows db (newObjectId a) (newObjectId b)))
          \<and> createConnection c db' newId' b a =
                (Inr \<lparr>connected = True, cr_message = ''Already connected'', connectionId = None\<rparr>,
                 db')
          \<and> createConnection c db' newId' a b =
                (Inr \<lparr>connected = True, cr_message = ''Already connected'', connectionId = None\<rparr>,
                 db')
          \<and> map tc_id (pairRows (snd (updateConnectionEligibility c db' a b))
                           (newObjectId a) (newObjectId b))
                = map tc_id (pairRows db' (newObjectId a) (newObjectId b))
          \<and> map tc_id (pairRows (snd (updateConnectionEligibility c db' b a))
                           (newObjectId a) (newObjectId b))
                = map tc_id (pairRows db' (newObjectId a) (newObjectId b)))"
proof (intro conjI impI)
  show sw: "normalizeUserIds a b = normalizeUserIds b a"
    using ne by (rule normalizeUserIds_swap)
  show l: "str_less (fst (normalizeUserIds a b)) (snd (normalizeUserIds a b))"
    using ne by (rule normalizeUserIds_less)
  assume h: "normalizedStore db \<and> newId \<notin> set (map tc_id db)
            \<and> createConnection c db newId a b = (Inr r, db')"
  then have inv: "normalizedStore db" and fresh: "newId \<notin> set (map tc_id db)"
    and ok: "createConnection c db newId a b = (Inr r, db')"
    by blast+
  note o = createConnection_outcome [OF inv fresh ne ok]
  from o show inv': "normalizedStore db'" by blast
  from o obtain d where
    d: "findOneConnection db' (fst (normalizeUserIds a b)) (snd (normalizeUserIds a b)) = Some d"
       "isActive d"
    by blast
  from d(1) have du: "userA d = fst (normalizeUserIds a b)" "userB d = snd (normalizeUserIds a b)"
    by (auto simp: findOneConnection_def find_Some_iff)
  have "pairRows db' (newObjectId a) (newObjectId b) = [d]"
    using pairRows_single [OF inv' d(1) l] by (simp add: pairRows_normalize)
  then show "\<exists>d. pairRows db' (newObjectId a) (newObjectId b) = [d]
                 \<and> (userA d, userB d) = normalizeUserIds a b
                 \<and> str_less (userA d) (userB d) \<and> isActive d"
    using du d(2) l by (simp add: prod_eq_iff)
  assume "pairRows db (newObjectId a) (newObjectId b) \<noteq> []"
  with o show "map tc_id (pairRows db' (newObjectId a) (newObjectId b))
                  = map tc_id (pairRows db (newObjectId a) (newObjectId b))"
    by blast
next
  assume h: "normalizedStore db \<and> newId \<notin> set (map tc_id db)
            \<and> createConnection c db newId a b = (Inr r, db')"
  then have inv: "normalizedStore db" and fresh: "newId \<notin> set (map tc_id db)"
    and ok: "createConnection c db newId a b = (Inr r, db')"
    by blast+
  from createConnection_outcome [OF inv fresh ne ok] obtain d where
    d: "findOneConnection db' (fst (normalizeUserIds a b)) (snd (normalizeUserIds a b)) = Some d"
       "isActive d"
    by blast
  from createConnection_Inr [OF ok] obtain e where
    v: "ObjectId_isValid a" "ObjectId_isValid b" "a \<noteq> b" and
    e: "checkConnectionEligibility c a b = Inr e" "eligible e"
    by blast
  from eligible_swap [OF e(1)] e(2) obtain e' where
    e': "checkConnectionEligibility c b a = Inr e'" "eligible e'"
    by auto
  have sw: "normalizeUserIds b a = normalizeUserIds a b"
    using ne by (simp add: normalizeUserIds_swap)
  show "createConnection c db' newId' a b =
          (Inr \<lparr>connected = True, cr_message = ''Already connected'', connectionId = None\<rparr>, db')"
    using v e d by (rule createConnection_again)
  have ba: "b \<noteq> a" using v(3) by blast
  show "createConnection c db' newId' b a =
          (Inr \<lparr>connected = True, cr_message = ''Already connected'', connectionId = None\<rparr>, db')"
    using v(2,1) ba e' d unfolding sw [symmetric] by (rule createConnection_again)
  show "map tc_id (pairRows (snd (updateConnectionEligibility c db' a b))
                           (newObjectId a) (newObjectId b))
                = map tc_id (pairRows db' (newObjectId a) (newObjectId b))"
    using updateConnectionEligibility_keys by (rule pairRows_keys)
  show "map tc_id (pairRows (snd (updateConnectionEligibility c db' b a))
                           (newObjectId a) (newObjectId b))
                = map tc_id (pairRows db' (newObjectId a) (newObjectId b))"
    using updateConnectionEligibility_keys by (rule pairRows_keys)
qed


lemma alice_less_bob: "str_less alice bob" "\<not> str_less bob alice"
  by (simp_all add: alice_def bob_def)

lemma create_walked_together:
  "createConnection walked_together [] ''999999999999999999999901'' bob alice =
     (Inr \<lparr>connected = True, cr_message = ''Connection created'',
           connectionId = Some ''999999999999999999999901''\<rparr>, [connection1])"
proof -
  have e: "checkConnectionEligibility walked_together bob alice =
     Inr \<lparr>eligible = True, mutualAlbums = map albumSummary (albums walked_together),
          reflectionCount = 2, reasons = []\<rparr>"
    by (simp add: checkConnectionEligibility_def getMediaReflectionsByUser_def walked_together_def
      valid_alice valid_bob canon_alice canon_bob alice_neq_bob Let_def)
  have n: "normalizeUserIds bob alice = (alice, bob)"
    by (simp add: normalizeUserIds_def canon_alice canon_bob alice_less_bob)
  have ids: "map (as_id \<circ> albumSummary) (albums walked_together)
              = [''eeeeeeeeeeeeeeeeeeeeee01'', ''eeeeeeeeeeeeeeeeeeeeee02'']"
    by (simp add: walked_together_def albumSummary_def)
  show ?thesis
    by (simp add: createConnection_def valid_alice valid_bob alice_neq_bob e n ids
        findOneConnection_def createTrailConnection_def preSave_def alice_less_bob
        connection1_def)
qed

theorem trail_connection_normalized_witness:
  "newObjectId bob \<noteq> newObjectId alice
   \<and> normalizedStore []
   \<and> ''999999999999999999999901'' \<notin> set (map tc_id [])
   \<and> createConnection walked_together [] ''999999999999999999999901'' bob alice =
       (Inr \<lparr>connected = True, cr_message = ''Connection created'',
             connectionId = Some ''999999999999999999999901''\<rparr>, [connection1])
   \<and> normalizedStore [connection1]
   \<and> pairRows [connection1] (newObjectId bob) (newObjectId alice) = [connection1]
   \<and> str_less (userA connection1) (userB connection1)
   \<and> createConnection walked_together [connection1] ''999999999999999999999902'' alice bob =
       (Inr \<lparr>connected = True, cr_message = ''Already connected'', connectionId = None\<rparr>,
        [connection1])"
proof -
  have ne: "newObjectId bob \<noteq> newObjectId alice"
    by (simp add: canon_alice canon_bob alice_neq_bob)
  have n0: "normalizedStore []" and f: "''999999999999999999999901'' \<notin> set (map tc_id [])"
    by (simp_all add: normalizedStore_def)
  from trail_connection_normalized [OF ne, of "[]" "''999999999999999999999901''" walked_together
      "\<lparr>connected = True, cr_message = ''Connection created'',
        connectionId = Some ''999999999999999999999901''\<rparr>" "[connection1]"
      "''999999999999999999999902''"]
    n0 f create_walked_together
  have "normalizedStore [connection1]
        \<and> (\<exists>d. pairRows [connection1] (newObjectId bob) (newObjectId alice) = [d]
                 \<and> (userA d, userB d) = normalizeUserIds bob alice
                 \<and> str_less (userA d) (userB d) \<and> isActive d)
        \<and> createConnection walked_together [connection1] ''999999999999999999999902'' alice bob =
            (Inr \<lparr>connected = True, cr_message = ''Already connected'', connectionId = None\<rparr>,
             [connection1])"
    by blast
  moreover have "pairRows [connection1] (newObjectId bob) (newObjectId alice) = [connection1]"
    by (simp add: pairRows_def connection1_def canon_alice canon_bob)
  moreover have "str_less (userA connection1) (userB connection1)"
    by (simp add: connection1_def alice_less_bob)
  ultimately show ?thesis
    using ne n0 f create_walked_together by blast
qed

section \<open>Following the cursor through a conversation\<close>

lemma filter_below_nth:
  fixes f :: "'a \<Rightarrow> int"
  assumes s: "sorted_wrt (\<lambda>a b. f b < f a) xs" and k: "0 < k" "k \<le> length xs"
  shows "filter (\<lambda>x. f x < f (xs ! (k - 1))) xs = drop k xs"
proof -
  have a: "filter (\<lambda>x. f x < f (xs ! (k - 1))) (take k xs) = []"
  proof -
    have "\<not> f x < f (xs ! (k - 1))" if "x \<in> set (take k xs)" for x
    proof -
      from that obtain i where i: "i < k" "x = xs ! i"
        using k by (auto simp: in_set_conv_nth)
      show ?thesis
      proof (cases "i = k - 1")
        case True
        with i show ?thesis by simp
      next
        case False
        with i have "i < k - 1" by simp
        moreover have "k - 1 < length xs" using k by simp
        ultimately have "f (xs ! (k - 1)) < f (xs ! i)"
          using sorted_wrt_nth_less [OF s] by blast
        with i show ?thesis by simp
      qed
    qed
    then show ?thesis by (simp add: filter_empty_conv)
  qed
  have b: "filter (\<lambda>x. f x < f (xs ! (k - 1))) (drop k xs) = drop k xs"
  proof -
    have "f x < f (xs ! (k - 1))" if "x \<in> set (drop k xs)" for x
    proof -
      from that obtain j where j: "j < length xs - k" "x = xs ! (k + j)"
        by (auto simp: in_set_conv_nth)
      have "k - 1 < k + j" "k + j < length xs" using k j by simp_all
      then have "f (xs ! (k + j)) < f (xs ! (k - 1))"
        using sorted_wrt_nth_less [OF s] by blast
      with j show ?thesis by simp
    qed
    then show ?thesis by (simp add: filter_id_conv)
  qed
  have "filter (\<lambda>x. f x < f (xs ! (k - 1))) xs
          = filter (\<lambda>x. f x < f (xs ! (k - 1))) (take k xs @ drop k xs)"
    by simp
  also have "\<dots> = drop k xs"
    unfolding filter_append a b by simp
  finally show ?thesis .
qed

lemma pairDesc_strict:
  assumes "distinct (map createdAt (filter (baseQuery u other) msgs))"
  shows "sorted_wrt (\<lambda>a b. createdAt b < createdAt a) (pairDesc u other msgs)"
proof -
  let ?P = "filter (baseQuery u other) msgs"
  let ?D = "sort_key (\<lambda>m. - createdAt m) ?P"
  have "mset (map createdAt ?D) = mset (map createdAt ?P)"
    by simp
  then have "distinct (map createdAt ?D)"
    using assms mset_eq_imp_distinct_iff by blast
  then have "distinct (map (\<lambda>m. - createdAt m) ?D)"
    by (simp add: distinct_map inj_on_def)
  moreover have "sorted (map (\<lambda>m. - createdAt m) ?D)"
    by (rule sorted_sort_key)
  ultimately have "sorted_wrt (<) (map (\<lambda>m. - createdAt m) ?D)"
    by (simp add: strict_sorted_iff)
  then show ?thesis
    by (simp add: sorted_wrt_map pairDesc_def)
qed

lemma fetchPage_before:
  assumes "1 \<le> limit"
  shows "fetchPage msgs u other cond limit Before =
           (rev (take (nat limit) (filter cond (pairDesc u other msgs))),
            limit < int (length (filter cond (pairDesc u other msgs))))"
proof -
  let ?F = "filter cond (pairDesc u other msgs)"
  have F: "sortMessages Before (filter (\<lambda>m. baseQuery u other m \<and> cond m) msgs) = ?F"
    by (simp add: sortMessages_def pairDesc_def filter_sort)
  have n: "nat (limit + 1) = Suc (nat limit)" using assms by simp
  have more: "(limit < int (length (take (nat (limit + 1)) ?F))) = (limit < int (length ?F))"
    using assms by auto
  have cut: "(if limit < int (length ?F) then take (nat limit) (take (nat (limit + 1)) ?F)
              else take (nat (limit + 1)) ?F) = take (nat limit) ?F"
    using assms by (auto simp: min_def)
  show ?thesis
    unfolding fetchPage_def Let_def F more cut by simp
qed


lemma insort_key_map_same:
  assumes "\<And>x. f (g x) = f x"
  shows "insort_key f (g x) (map g ys) = map g (insort_key f x ys)"
  by (induction ys) (simp_all add: assms)

lemma sort_key_map_same:
  assumes "\<And>x. f (g x) = f x"
  shows "sort_key f (map g xs) = map g (sort_key f xs)"
  by (induction xs) (simp_all add: insort_key_map_same [of f g, OF assms])

lemma filter_map_same:
  assumes "\<And>x. P (g x) = P x"
  shows "filter P (map g xs) = map g (filter P xs)"
  by (induction xs) (simp_all add: assms)

lemma pairDesc_map:
  assumes "keepsKey g"
  shows "pairDesc u other (map g msgs) = map g (pairDesc u other msgs)"
proof -
  have b: "baseQuery u other (g x) = baseQuery u other x" for x
    using assms by (simp add: baseQuery_def keepsKey_def)
  have c: "- createdAt (g x) = - createdAt x" for x
    using assms by (simp add: keepsKey_def)
  show ?thesis
    unfolding pairDesc_def
    by (simp only: filter_map_same [of "baseQuery u other" g, OF b]
        sort_key_map_same [of "\<lambda>m. - createdAt m" g, OF c])
qed

lemma pagingStore_map:
  assumes "keepsKey g" and "pagingStore u other msgs"
  shows "pagingStore u other (map g msgs)"
proof -
  have b: "baseQuery u other (g x) = baseQuery u other x" for x
    using assms(1) by (simp add: baseQuery_def keepsKey_def)
  have i: "map msg_id (map g msgs) = map msg_id msgs"
    using assms(1) by (simp add: keepsKey_def)
  have t: "map createdAt (filter (baseQuery u other) (map g msgs))
             = map createdAt (filter (baseQuery u other) msgs)"
    unfolding filter_map_same [of "baseQuery u other" g, OF b]
    using assms(1) by (simp add: keepsKey_def)
  have v: "list_all (\<lambda>m. ObjectId_isValid (msg_id m) \<and> newObjectId (msg_id m) = msg_id m) (map g msgs)
            = list_all (\<lambda>m. ObjectId_isValid (msg_id m) \<and> newObjectId (msg_id m) = msg_id m) msgs"
    using assms(1) by (simp add: list_all_iff keepsKey_def)
  show ?thesis
    using assms(2) unfolding pagingStore_def i t v .
qed

lemma markRead_keepsKey:
  "\<exists>g. keepsKey g \<and> markRead msgs ids now = map g msgs"
proof -
  let ?g = "\<lambda>m. if msg_id m \<in> set ids then m\<lparr>isRead := True, readAt := Some now\<rparr> else m"
  have "keepsKey ?g" by (simp add: keepsKey_def)
  moreover have "markRead msgs ids now = map ?g msgs" by (simp add: markRead_def)
  ultimately show ?thesis by blast
qed

lemma keepsKey_id: "keepsKey (\<lambda>m. m)"
  by (simp add: keepsKey_def)

lemma findMessageById_member:
  assumes "distinct (map msg_id msgs)" and "m \<in> set msgs"
  shows "findMessageById msgs (msg_id m) = Some m"
  using assms unfolding findMessageById_def
  by (induction msgs) (auto simp: rev_image_eqI)


lemma set_pairDesc: "set (pairDesc u other msgs) \<subseteq> set msgs"
  by (auto simp: pairDesc_def)

lemma valid_not_empty: "ObjectId_isValid c \<Longrightarrow> c \<noteq> []"
  by (auto simp: ObjectId_isValid_def)

lemma cursorCondition_before:
  assumes st: "pagingStore u other msgs"
    and D: "D = pairDesc u other msgs" and k: "k \<le> length D"
    and cur: "(k = 0 \<and> cursor = None) \<or> (0 < k \<and> cursor = Some (msg_id (D ! (k - 1))))"
  shows "\<exists>cond. cursorCondition msgs cursor Before = Inr cond \<and> filter cond D = drop k D"
proof (cases "k = 0")
  case True
  with cur have "cursorCondition msgs cursor Before = Inr (\<lambda>m. True)"
    by (simp add: cursorCondition_def)
  with True show ?thesis by simp
next
  case False
  with cur have c: "cursor = Some (msg_id (D ! (k - 1)))" and k0: "0 < k" by auto
  let ?m = "D ! (k - 1)"
  have mD: "?m \<in> set D" using k k0 by simp
  then have m: "?m \<in> set msgs" using set_pairDesc D by blast
  with st have valid: "ObjectId_isValid (msg_id ?m)" and canon: "newObjectId (msg_id ?m) = msg_id ?m"
    by (auto simp: pagingStore_def list_all_iff)
  have f: "findMessageById msgs (msg_id ?m) = Some ?m"
    using st m by (intro findMessageById_member) (simp add: pagingStore_def)
  have "cursorCondition msgs cursor Before = Inr (\<lambda>x. createdAt x < createdAt ?m)"
    using c valid canon f valid_not_empty [OF valid] by (simp add: cursorCondition_def)
  moreover have "filter (\<lambda>x. createdAt x < createdAt ?m) D = drop k D"
  proof (rule filter_below_nth)
    show "sorted_wrt (\<lambda>a b. createdAt b < createdAt a) D"
      unfolding D using st by (intro pairDesc_strict) (simp add: pagingStore_def)
  qed (use k k0 in simp_all)
  ultimately show ?thesis by blast
qed

lemma getMessages_before_step:
  assumes v: "ObjectId_isValid userId" "ObjectId_isValid other"
    and L: "1 \<le> limit" "limit \<le> 100"
    and conn: "areConnected crs userId other"
    and st: "pagingStore (newObjectId userId) (newObjectId other) msgs"
    and D: "D = pairDesc (newObjectId userId) (newObjectId other) msgs" and k: "k \<le> length D"
    and cur: "(k = 0 \<and> cursor = None) \<or> (0 < k \<and> cursor = Some (msg_id (D ! (k - 1))))"
  shows "\<exists>g. keepsKey g \<and> getMessages crs msgs now userId other cursor limit Before =
           (Inr \<lparr>messages = map (formatMessage userId) (rev (take (nat limit) (drop k D))),
                 nextCursor = (if drop k D = [] then None
                               else Some (msg_id (last (take (nat limit) (drop k D))))),
                 hasMore = (limit < int (length (drop k D))),
                 page_direction = Before\<rparr>, map g msgs)"
proof -
  from cursorCondition_before [OF st D k cur] obtain cond where
    c: "cursorCondition msgs cursor Before = Inr cond" and F: "filter cond D = drop k D"
    by blast
  let ?page = "take (nat limit) (drop k D)"
  have fp: "fetchPage msgs (newObjectId userId) (newObjectId other) cond limit Before
              = (rev ?page, limit < int (length (drop k D)))"
    using fetchPage_before [OF L(1), of msgs "newObjectId userId" "newObjectId other" cond] F D
    by simp
  let ?ids = "map msg_id (filter (\<lambda>msg. receiverId msg = userId \<and> \<not> isRead msg) (rev ?page))"
  obtain g where g: "keepsKey g"
    "(if length ?ids > 0 then markRead msgs ?ids now else msgs) = map g msgs"
  proof (cases "length ?ids > 0")
    case True
    with markRead_keepsKey [of msgs ?ids now] that show ?thesis by auto
  next
    case False
    with keepsKey_id that [of "\<lambda>m. m"] show ?thesis by simp
  qed
  have e: "(?page = []) = (drop k D = [])"
    using L(1) by (cases "drop k D") (simp_all add: take_Cons')
  have nx: "(if length (map (formatMessage userId) (rev ?page)) > 0
             then Some (mv_id (hd (map (formatMessage userId) (rev ?page))))
             else None)
        = (if drop k D = [] then None else Some (msg_id (last ?page)))"
  proof (cases "?page = []")
    case True
    with e show ?thesis by simp
  next
    case False
    then have "hd (map (formatMessage userId) (rev ?page)) = formatMessage userId (last ?page)"
      by (simp add: hd_map hd_rev)
    with False e show ?thesis by (simp add: formatMessage_def)
  qed
  have gm: "getMessages crs msgs now userId other cursor limit Before =
           (Inr \<lparr>messages = map (formatMessage userId) (rev ?page),
                 nextCursor = (if length (map (formatMessage userId) (rev ?page)) > 0
                               then Some (mv_id (hd (map (formatMessage userId) (rev ?page))))
                               else None),
                 hasMore = (limit < int (length (drop k D))),
                 page_direction = Before\<rparr>,
            (if length ?ids > 0 then markRead msgs ?ids now else msgs))"
    using v L conn by (simp add: getMessages_def Let_def c fp)
  show ?thesis
    unfolding gm nx g(2) using g(1) by blast
qed


lemma page_ascending:
  assumes "sorted_wrt (\<lambda>a b. createdAt b < createdAt a) D"
  shows "sorted (map mv_createdAt (map (formatMessage userId) (rev (take n (drop k D)))))"
proof -
  let ?X = "take n (drop k D)"
  have "sorted_wrt (\<lambda>a b. createdAt b < createdAt a) ?X"
    using assms by simp
  then have "sorted_wrt (\<lambda>a b. createdAt a < createdAt b) (rev ?X)"
    by (simp add: sorted_wrt_rev)
  then have "sorted_wrt (\<lambda>a b. createdAt a \<le> createdAt b) (rev ?X)"
    by (rule sorted_wrt_mono_rel [rotated]) simp
  then have s: "sorted (map createdAt (rev ?X))"
    by (simp add: sorted_wrt_map)
  have eq: "map mv_createdAt (map (formatMessage userId) (rev ?X)) = map createdAt (rev ?X)"
    by (simp add: formatMessage_def)
  show ?thesis unfolding eq by (rule s)
qed

lemma last_page_nth:
  assumes "k < length D" and "0 < n"
  shows "last (take n (drop k D)) = D ! (min (k + n) (length D) - 1)"
proof -
  let ?X = "take n (drop k D)"
  have len: "length ?X = min (k + n) (length D) - k" using assms by auto
  have ne: "?X \<noteq> []" using assms by auto
  have "last ?X = ?X ! (length ?X - 1)" using ne by (rule last_conv_nth)
  also have "\<dots> = D ! (k + (length ?X - 1))"
    using assms len by simp
  also have "k + (length ?X - 1) = min (k + n) (length D) - 1"
    using assms len by auto
  finally show ?thesis .
qed

lemma followCursor_before:
  assumes v: "ObjectId_isValid userId" "ObjectId_isValid other"
    and L: "1 \<le> limit" "limit \<le> 100"
    and conn: "areConnected crs userId other"
  shows "pagingStore (newObjectId userId) (newObjectId other) msgs \<Longrightarrow>
         D = pairDesc (newObjectId userId) (newObjectId other) msgs \<Longrightarrow>
         k \<le> length D \<Longrightarrow>
         (k = 0 \<and> cursor = None) \<or> (0 < k \<and> cursor = Some (msg_id (D ! (k - 1)))) \<Longrightarrow>
         length D - k < fuel \<Longrightarrow>
         \<exists>pages msgs'.
            followCursor fuel crs msgs now userId other cursor limit = Some (Inr pages, msgs')
          \<and> map mv_id (concat (rev pages)) = rev (map msg_id (drop k D))
          \<and> (\<forall>p\<in>set pages. sorted (map mv_createdAt p) \<and> int (length p) \<le> limit)"
proof (induction fuel arbitrary: msgs D k cursor)
  case 0
  then show ?case by simp
next
  case (Suc fuel)
  let ?u = "newObjectId userId" and ?o = "newObjectId other"
  let ?X = "take (nat limit) (drop k D)"
  from getMessages_before_step [OF v L conn Suc.prems(1,2,3,4), of now] obtain g where
    g: "keepsKey g" and
    gm: "getMessages crs msgs now userId other cursor limit Before =
           (Inr \<lparr>messages = map (formatMessage userId) (rev ?X),
                 nextCursor = (if drop k D = [] then None else Some (msg_id (last ?X))),
                 hasMore = (limit < int (length (drop k D))),
                 page_direction = Before\<rparr>, map g msgs)"
    by blast
  have strict: "sorted_wrt (\<lambda>a b. createdAt b < createdAt a) D"
    unfolding Suc.prems(2) using Suc.prems(1) by (intro pairDesc_strict) (simp add: pagingStore_def)
  have asc: "sorted (map mv_createdAt (map (formatMessage userId) (rev ?X)))"
    using strict by (rule page_ascending)
  have len: "int (length (map (formatMessage userId) (rev ?X))) \<le> limit"
    using L by simp
  show ?case
  proof (cases "drop k D = []")
    case True
    then have "followCursor (Suc fuel) crs msgs now userId other cursor limit
                 = Some (Inr [map (formatMessage userId) (rev ?X)], map g msgs)"
      by (simp add: gm)
    moreover have "map mv_id (concat (rev [map (formatMessage userId) (rev ?X)]))
                     = rev (map msg_id (drop k D))"
      using True by simp
    ultimately show ?thesis using asc len by simp
  next
    case False
    then have kl: "k < length D" by simp
    let ?k' = "min (k + nat limit) (length D)"
    let ?c = "msg_id (last ?X)"
    have D1: "pairDesc ?u ?o (map g msgs) = map g D"
      unfolding Suc.prems(2) using g by (rule pairDesc_map)
    have st1: "pagingStore ?u ?o (map g msgs)"
      using g Suc.prems(1) by (rule pagingStore_map)
    have k'pos: "0 < ?k'" and k'gt: "k < ?k'" and k'le: "?k' \<le> length (map g D)"
      using kl L by auto
    have lastX: "last ?X = D ! (?k' - 1)"
      using kl L by (intro last_page_nth) simp_all
    have "?k' - 1 < length D" using kl k'pos by auto
    then have nm: "map g D ! (?k' - 1) = g (D ! (?k' - 1))"
      by (rule nth_map)
    have idg: "msg_id (map g D ! (?k' - 1)) = msg_id (D ! (?k' - 1))"
      unfolding nm using g by (simp add: keepsKey_def)
    have "Some ?c = Some (msg_id (map g D ! (?k' - 1)))"
      unfolding idg lastX by (rule refl)
    with k'pos
    have cur1: "(?k' = 0 \<and> Some ?c = None) \<or> (0 < ?k' \<and> Some ?c = Some (msg_id (map g D ! (?k' - 1))))"
      by blast
    have fuel1: "length (map g D) - ?k' < fuel"
      using Suc.prems(5) kl k'gt by simp
    from Suc.IH [OF st1 D1 [symmetric] k'le cur1 fuel1] obtain pages' msgs' where
      rec: "followCursor fuel crs (map g msgs) now userId other (Some ?c) limit
              = Some (Inr pages', msgs')" and
      ids': "map mv_id (concat (rev pages')) = rev (map msg_id (drop ?k' (map g D)))" and
      pg': "\<forall>p\<in>set pages'. sorted (map mv_createdAt p) \<and> int (length p) \<le> limit"
      by blast
    have fc: "followCursor (Suc fuel) crs msgs now userId other cursor limit
                = Some (Inr (map (formatMessage userId) (rev ?X) # pages'), msgs')"
      using False by (simp add: gm rec)
    have "map msg_id (drop ?k' (map g D)) = map msg_id (drop ?k' D)"
      using g by (simp add: drop_map keepsKey_def)
    moreover have "drop ?k' D = drop (nat limit) (drop k D)"
      by (simp add: min_def add.commute)
    ultimately have tl: "map msg_id (drop ?k' (map g D)) = map msg_id (drop (nat limit) (drop k D))"
      by simp
    have "map mv_id (concat (rev (map (formatMessage userId) (rev ?X) # pages')))
            = rev (map msg_id (drop (nat limit) (drop k D))) @ rev (map msg_id ?X)"
      using ids' tl by (simp add: formatMessage_def rev_map comp_def)
    also have "\<dots> = rev (map msg_id (?X @ drop (nat limit) (drop k D)))"
      by simp
    also have "?X @ drop (nat limit) (drop k D) = drop k D"
      by (rule append_take_drop_id)
    finally have ids: "map mv_id (concat (rev (map (formatMessage userId) (rev ?X) # pages')))
            = rev (map msg_id (drop k D))" .
    show ?thesis using fc ids asc len pg' by simp
  qed
qed


lemma rev_pairDesc:
  assumes "distinct (map createdAt (filter (baseQuery u other) msgs))"
  shows "rev (pairDesc u other msgs) = sort_key createdAt (filter (baseQuery u other) msgs)"
proof -
  let ?P = "filter (baseQuery u other) msgs"
  let ?D = "pairDesc u other msgs"
  have m: "mset (rev ?D) = mset ?P" by (simp add: pairDesc_def)
  have s: "sorted (map createdAt (rev ?D))"
  proof -
    have "sorted_wrt (\<lambda>a b. createdAt a < createdAt b) (rev ?D)"
      using pairDesc_strict [OF assms] by (simp add: sorted_wrt_rev)
    then have "sorted_wrt (\<lambda>a b. createdAt a \<le> createdAt b) (rev ?D)"
      by (rule sorted_wrt_mono_rel [rotated]) simp
    then show ?thesis by (simp add: sorted_wrt_map)
  qed
  have dD: "distinct (map createdAt (rev ?D))"
  proof -
    have "mset (map createdAt (rev ?D)) = mset (map createdAt ?P)" using m by simp
    then show ?thesis using assms mset_eq_imp_distinct_iff by blast
  qed
  have f: "filter (\<lambda>x. createdAt k = createdAt x) (rev ?D) = filter (\<lambda>x. createdAt k = createdAt x) ?P"
    if k: "k \<in> set (rev ?D)" for k
  proof -
    have kP: "k \<in> set ?P" using k m by (metis set_mset_mset)
    have "filter (\<lambda>x. createdAt x = createdAt k) (rev ?D) = [k]"
      using dD k by (rule filter_key_single)
    moreover have "filter (\<lambda>x. createdAt x = createdAt k) ?P = [k]"
      using assms kP by (rule filter_key_single)
    ultimately show ?thesis by (simp add: eq_commute [of "createdAt k"])
  qed
  show ?thesis
    using properties_for_sort_key [OF m f s] by simp
qed

text \<open>
  C6, for a pair whose messages have pairwise different \<open>createdAt\<close> timestamps (and, as
  in any collection, unique canonical \<open>_id\<close>s). For a connected pair and a page size in
  [1,100], the client that starts with no cursor and keeps passing \<open>nextCursor\<close> with
  direction \<open>before\<close> finishes within N + 1 calls for N messages; the pages it received,
  concatenated from the last to the first, are exactly the pair's messages in ascending
  \<open>createdAt\<close> order, each once; every page is in ascending order and holds at most
  \<open>limit\<close> messages.
\<close>

theorem pagination_complete:
  assumes "ObjectId_isValid userId" and "ObjectId_isValid other"
    and "1 \<le> limit" and "limit \<le> 100"
    and "areConnected crs userId other"
    and "pagingStore (newObjectId userId) (newObjectId other) msgs"
    and "length (filter (baseQuery (newObjectId userId) (newObjectId other)) msgs) < fuel"
  shows "\<exists>pages msgs'.
            followCursor fuel crs msgs now userId other None limit = Some (Inr pages, msgs')
          \<and> map mv_id (concat (rev pages))
              = map msg_id (sort_key createdAt
                              (filter (baseQuery (newObjectId userId) (newObjectId other)) msgs))
          \<and> distinct (map mv_id (concat (rev pages)))
          \<and> (\<forall>p\<in>set pages. sorted (map mv_createdAt p) \<and> int (length p) \<le> limit)"
proof -
  let ?u = "newObjectId userId" and ?o = "newObjectId other"
  let ?D = "pairDesc ?u ?o msgs"
  have len: "length ?D - 0 < fuel" using assms(7) by (simp add: pairDesc_def)
  from followCursor_before [OF assms(1-6) refl, of 0 None fuel now] len obtain pages msgs' where
    fc: "followCursor fuel crs msgs now userId other None limit = Some (Inr pages, msgs')" and
    ids: "map mv_id (concat (rev pages)) = rev (map msg_id (drop 0 ?D))" and
    pg: "\<forall>p\<in>set pages. sorted (map mv_createdAt p) \<and> int (length p) \<le> limit"
    by auto
  have t: "distinct (map createdAt (filter (baseQuery ?u ?o) msgs))"
    and i: "distinct (map msg_id msgs)"
    using assms(6) by (simp_all add: pagingStore_def)
  have "rev (map msg_id ?D) = map msg_id (rev ?D)" by (simp add: rev_map)
  also have "\<dots> = map msg_id (sort_key createdAt (filter (baseQuery ?u ?o) msgs))"
    using rev_pairDesc [OF t] by simp
  finally have ids': "map mv_id (concat (rev pages))
              = map msg_id (sort_key createdAt (filter (baseQuery ?u ?o) msgs))"
    using ids by simp
  have "distinct (map msg_id (filter (baseQuery ?u ?o) msgs))"
    using i by (rule distinct_map_filter)
  then have "distinct (map msg_id (sort_key createdAt (filter (baseQuery ?u ?o) msgs)))"
    using mset_eq_imp_distinct_iff [of "map msg_id (sort_key createdAt (filter (baseQuery ?u ?o) msgs))"
        "map msg_id (filter (baseQuery ?u ?o) msgs)"]
    by simp
  with ids' have "distinct (map mv_id (concat (rev pages)))" by simp
  with fc ids' pg show ?thesis by blast
qed

lemma valid_message_ids:
  "ObjectId_isValid ''dddddddddddddddddddddd01''"
  "ObjectId_isValid ''dddddddddddddddddddddd02''"
  "ObjectId_isValid ''dddddddddddddddddddddd03''"
  by (simp_all add: ObjectId_isValid_def isHexChar_def)

lemma canon_message_ids:
  "newObjectId ''dddddddddddddddddddddd01'' = ''dddddddddddddddddddddd01''"
  "newObjectId ''dddddddddddddddddddddd02'' = ''dddddddddddddddddddddd02''"
  "newObjectId ''dddddddddddddddddddddd03'' = ''dddddddddddddddddddddd03''"
  by (simp_all add: newObjectId_def hexLower_def)

lemma followCursor_tied2:
  "followCursor 3 accepted_ab tied2 5000 alice bob None 1
     = Some (Inr [[formatMessage alice (tied2 ! 0)], []], tied2)"
  by (simp add: numeral_3_eq_3 getMessages_def valid_alice valid_bob connected_ab
      cursorCondition_def findMessageById_def valid_message_ids canon_message_ids
      fetchPage_def canon_alice canon_bob tied2_def mk_msg_def baseQuery_def alice_neq_bob
      sortMessages_def Let_def markRead_def formatMessage_def)

text \<open>
  Against C6 as stated: two messages from Alice to Bob carry the same timestamp; the page
  size is 1. The first
  page holds one of them, the cursor's strict \<open>createdAt <\<close> comparison excludes the other,
  and the next page is empty: the second message is never returned. (With the database
  returning the tied messages in the other order, the first one would be skipped.)
\<close>

theorem pagination_tied_counterexample:
  "followCursor 3 accepted_ab tied2 5000 alice bob None 1
     = Some (Inr [[formatMessage alice (tied2 ! 0)], []], tied2)
   \<and> map msg_id (filter (baseQuery (newObjectId alice) (newObjectId bob)) tied2)
     = [''dddddddddddddddddddddd01'', ''dddddddddddddddddddddd02'']
   \<and> mv_id (formatMessage alice (tied2 ! 0)) = ''dddddddddddddddddddddd01''"
  using followCursor_tied2
  by (simp add: tied2_def mk_msg_def baseQuery_def canon_alice canon_bob formatMessage_def)

lemma followCursor_chat3:
  "followCursor 4 accepted_ab chat3 5000 alice bob None 2
     = Some (Inr [[formatMessage alice (chat3 ! 1), formatMessage alice (chat3 ! 2)],
                  [formatMessage alice (chat3 ! 0)], []], chat3_read)"
  by (simp add: numeral_eq_Suc getMessages_def valid_alice valid_bob connected_ab
      cursorCondition_def findMessageById_def valid_message_ids canon_message_ids
      fetchPage_def canon_alice canon_bob chat3_def chat3_read_def mk_msg_def baseQuery_def
      alice_neq_bob sortMessages_def Let_def markRead_def formatMessage_def)

theorem pagination_complete_witness:
  "ObjectId_isValid alice \<and> ObjectId_isValid bob \<and> (1::int) \<le> 2 \<and> (2::int) \<le> 100
   \<and> areConnected accepted_ab alice bob
   \<and> pagingStore (newObjectId alice) (newObjectId bob) chat3
   \<and> length (filter (baseQuery (newObjectId alice) (newObjectId bob)) chat3) < 4
   \<and> followCursor 4 accepted_ab chat3 5000 alice bob None 2
       = Some (Inr [[formatMessage alice (chat3 ! 1), formatMessage alice (chat3 ! 2)],
                    [formatMessage alice (chat3 ! 0)], []], chat3_read)
   \<and> map mv_id [formatMessage alice (chat3 ! 0), formatMessage alice (chat3 ! 1),
                 formatMessage alice (chat3 ! 2)]
       = map msg_id (sort_key createdAt
                       (filter (baseQuery (newObjectId alice) (newObjectId bob)) chat3))"
proof -
  have st: "pagingStore (newObjectId alice) (newObjectId bob) chat3"
    by (simp add: pagingStore_def chat3_def mk_msg_def valid_message_ids canon_message_ids
        baseQuery_def canon_alice canon_bob alice_neq_bob)
  have n: "length (filter (baseQuery (newObjectId alice) (newObjectId bob)) chat3) < 4"
    by (simp add: chat3_def mk_msg_def baseQuery_def canon_alice canon_bob alice_neq_bob)
  have l: "(1::int) \<le> 2" "(2::int) \<le> 100" by simp_all
  from pagination_complete [OF valid_alice valid_bob l connected_ab st n, of 5000]
  obtain pages msgs' where
    "followCursor 4 accepted_ab chat3 5000 alice bob None 2 = Some (Inr pages, msgs')"
    "map mv_id (concat (rev pages))
       = map msg_id (sort_key createdAt
                       (filter (baseQuery (newObjectId alice) (newObjectId bob)) chat3))"
    by blast
  with followCursor_chat3
  have "map mv_id [formatMessage alice (chat3 ! 0), formatMessage alice (chat3 ! 1),
                 formatMessage alice (chat3 ! 2)]
       = map msg_id (sort_key createdAt
                       (filter (baseQuery (newObjectId alice) (newObjectId bob)) chat3))"
    by auto
  with valid_alice valid_bob l connected_ab st n followCursor_chat3 show ?thesis
    by blast
qed

section \<open>Pending requests per pair\<close>

lemma pairMatch_commute: "pairMatch a b r = pairMatch b a r"
  by (auto simp: pairMatch_def)

lemma findOnePair_None_pending:
  "findOnePair db a b PENDING = None \<longleftrightarrow> pendingFor db a b = []"
  by (auto simp: findOnePair_def pendingFor_def find_None_iff filter_empty_conv)

lemma sendRequest_pending_conflict:
  assumes "ObjectId_isValid x" and "ObjectId_isValid y" and "x \<noteq> y"
    and "findOnePair db (newObjectId x) (newObjectId y) ACCEPTED = None"
    and "pendingFor db (newObjectId x) (newObjectId y) \<noteq> []"
  shows "\<exists>msg. sendRequest db newId x y = (Inl (BadRequestException msg), db)
           \<and> (msg = ''Request already sent'' \<or> msg = ''You have a pending request from this user'')"
proof -
  from assms(5) obtain p where "findOnePair db (newObjectId x) (newObjectId y) PENDING = Some p"
    using findOnePair_None_pending [of db "newObjectId x" "newObjectId y"] by auto
  then show ?thesis
    using assms(1-4) by (simp add: sendRequest_def sendRequest_check_def Let_def)
qed

lemma sendRequest_success:
  assumes "sendRequest db newId x y = (Inr r, db')"
  shows "pendingFor db (newObjectId x) (newObjectId y) = []
         \<and> db' = db @ [\<lparr>cr_id = newId, requesterId = newObjectId x, recipientId = newObjectId y,
                         status = PENDING\<rparr>]"
proof -
  from assms obtain p where c: "sendRequest_check db x y = Inr p"
    and cr: "sendRequest_create db newId p = (Inr r, db')"
    by (auto simp: sendRequest_def split: sum.splits)
  from c have p: "p = (newObjectId x, newObjectId y)"
    and n: "findOnePair db (newObjectId x) (newObjectId y) PENDING = None"
    by (auto simp: sendRequest_check_def Let_def split: if_splits option.splits)
  from cr p have "db' = db @ [\<lparr>cr_id = newId, requesterId = newObjectId x,
                                recipientId = newObjectId y, status = PENDING\<rparr>]"
    by (auto simp: sendRequest_create_def createRequest_def split: if_splits)
  with n show ?thesis by (simp add: findOnePair_None_pending)
qed

lemma sendRequest_failure:
  assumes "sendRequest db newId x y = (Inl e, db')"
  shows "db' = db"
  using assms
  by (auto simp: sendRequest_def sendRequest_create_def split: sum.splits)

text \<open>
  Calls that run one after the other keep at most one pending request per unordered pair:
  the two \<open>findOne\<close> reads of a call see every earlier insert.
\<close>

lemma sendRequest_keeps_one_pending:
  assumes inv: "\<And>a b. length (pendingFor db a b) \<le> 1"
  shows "length (pendingFor (snd (sendRequest db newId x y)) a b) \<le> 1"
proof (cases "fst (sendRequest db newId x y)")
  case (Inl e)
  then have "sendRequest db newId x y = (Inl e, snd (sendRequest db newId x y))"
    by (simp add: prod_eq_iff)
  from sendRequest_failure [OF this] inv show ?thesis by simp
next
  case (Inr r)
  then have "sendRequest db newId x y = (Inr r, snd (sendRequest db newId x y))"
    by (simp add: prod_eq_iff)
  from sendRequest_success [OF this]
  have e: "pendingFor db (newObjectId x) (newObjectId y) = []"
    and d: "snd (sendRequest db newId x y)
            = db @ [\<lparr>cr_id = newId, requesterId = newObjectId x, recipientId = newObjectId y,
                      status = PENDING\<rparr>]"
    by blast+
  let ?d = "\<lparr>cr_id = newId, requesterId = newObjectId x, recipientId = newObjectId y,
             status = PENDING\<rparr>"
  show ?thesis
  proof (cases "pairMatch a b ?d")
    case True
    then have "pendingFor db a b = pendingFor db (newObjectId x) (newObjectId y)"
      by (auto simp: pendingFor_def pairMatch_def intro: filter_cong)
    with e True show ?thesis unfolding d by (simp add: pendingFor_def)
  next
    case False
    then show ?thesis unfolding d using inv [of a b] by (simp add: pendingFor_def)
  qed
qed

text \<open>
  C1. Two calls, \<open>sendRequest(alice, bob)\<close> and \<open>sendRequest(bob, alice)\<close>, start on a
  collection with no request for the pair and are interleaved at their \<open>await\<close>s: both
  run their checks before either insert. Both checks pass, and both inserts pass the
  unique index, which is on the ordered triple (requesterId, recipientId, status): the
  collection ends with two pending requests for the one pair. The index alone does not
  give the pair uniqueness that the schema's comment and the claim state. (Run after the
  first call has finished, the second call is refused by its own check.)
\<close>

theorem sendRequest_race_two_pending:
  "sendRequest_check [] alice bob = Inr (alice, bob)
   \<and> sendRequest_check [] bob alice = Inr (bob, alice)
   \<and> sendRequest_create [] request1 (alice, bob) = (Inr (request1, ''Request sent''), pending_ab)
   \<and> sendRequest_create pending_ab request2 (bob, alice)
       = (Inr (request2, ''Request sent''), pending_both)
   \<and> pendingFor pending_both alice bob = pending_both
   \<and> length pending_both = 2
   \<and> sendRequest pending_ab request2 bob alice
       = (Inl (BadRequestException ''You have a pending request from this user''), pending_ab)"
  by (simp add: sendRequest_def sendRequest_check_def sendRequest_create_def createRequest_def
      pendingIndexClash_def findOnePair_def valid_alice valid_bob canon_alice canon_bob
      alice_neq_bob pending_ab_def pending_both_def pendingFor_def pairMatch_def Let_def)

theorem sendRequest_race_two_pending_witness:
  "sendRequest_check [] alice bob = Inr (alice, bob)
   \<and> sendRequest_check [] bob alice = Inr (bob, alice)
   \<and> length (pendingFor pending_both alice bob) = 2"
  using sendRequest_race_two_pending by simp

end
